theory Spec2Isabelle
  imports Complex_Main "HOL-Library.Multiset"
begin

section \<open>Region selection for oil wells: profit of the top wells and its bootstrap\<close>

text \<open>
  The development follows \<^verbatim>\<open>Src/Modelo_Seleccion_Region_OilGas.py\<close>.

  Conventions of the embedding:
  \<^item> a pandas \<^verbatim>\<open>Series\<close> is the list of its rows \<open>(label, value)\<close> in positional order; labels
    may repeat, as they do in a sample drawn with replacement;
  \<^item> a floating-point number is a \<open>real\<close>: rounding error, infinities and NaN are outside the
    model, so a sum is the exact sum;
  \<^item> an exception is a value \<open>Inl e\<close> of the result type \<open>error + 'a\<close>;
  \<^item> the functions of NumPy and scikit-learn whose code is not part of the repository (the
    random generators, the least-squares solver, the rounding to two decimals) are
    parameters of the model.
\<close>

subsection \<open>Constants of the script\<close>

definition RANDOM_STATE :: int where
  "RANDOM_STATE = 12345"

definition BUDGET :: real where
  "BUDGET = 10000000"

definition REVENUE_PER_THOUSAND_BARRELS :: real where
  "REVENUE_PER_THOUSAND_BARRELS = 4500"

definition N_WELLS_PER_REGION :: int where
  "N_WELLS_PER_REGION = 500"

definition N_TOP_WELLS :: int where
  "N_TOP_WELLS = 200"

definition N_BOOTSTRAP_ITER :: int where
  "N_BOOTSTRAP_ITER = 1000"

subsection \<open>Series, label lookup, sorting\<close>

datatype error = KeyError | ValueError | IndexError | FileNotFoundError

type_synonym 'l series = "('l \<times> real) list"

definition index :: "'l series \<Rightarrow> 'l list" where
  "index s = map fst s"

definition values_of :: "'l series \<Rightarrow> real list" where
  "values_of s = map snd s"

text \<open>
  \<^verbatim>\<open>s.sort_values(ascending=False)\<close>: the rows by decreasing value. Rows of equal value
  keep their original order here. NumPy's default sort (quicksort) does not promise an order
  among them, so which of several wells with the same prediction comes first is a choice of
  this model; where no two different wells have the same prediction the order is the code's.
\<close>

definition sort_values_desc :: "'l series \<Rightarrow> 'l series" where
  "sort_values_desc s = sort_key (\<lambda>r. - snd r) s"

text \<open>
  \<^verbatim>\<open>s.head(n)\<close>: the first \<open>n\<close> rows, and for a negative \<open>n\<close> all rows but the last \<open>-n\<close>.
\<close>

definition head :: "int \<Rightarrow> 'a list \<Rightarrow> 'a list" where
  "head n xs = (if 0 \<le> n then take (nat n) xs else take (length xs - nat (- n)) xs)"

definition rows_with :: "'l series \<Rightarrow> 'l \<Rightarrow> 'l series" where
  "rows_with s k = filter (\<lambda>r. fst r = k) s"

text \<open>
  \<^verbatim>\<open>s.loc[keys]\<close> for a list of labels: for each key in turn, every row of \<open>s\<close> that carries
  the label, in positional order; a key that labels no row raises \<^verbatim>\<open>KeyError\<close>. A label that
  occurs \<open>k\<close> times in \<open>s\<close> therefore contributes \<open>k\<close> rows each time it is asked for.
\<close>

fun loc :: "'l series \<Rightarrow> 'l list \<Rightarrow> error + 'l series" where
  "loc s [] = Inr []"
| "loc s (k # ks) =
     (case rows_with s k of
        [] \<Rightarrow> Inl KeyError
      | r # rs \<Rightarrow>
          (case loc s ks of
             Inl e \<Rightarrow> Inl e
           | Inr rest \<Rightarrow> Inr ((r # rs) @ rest)))"

subsection \<open>calculate_profit\<close>

definition calculate_profit ::
  "'l series \<Rightarrow> 'l series \<Rightarrow> real \<Rightarrow> real \<Rightarrow> int \<Rightarrow> int \<Rightarrow> error + real" where
  "calculate_profit target_valid predictions_valid budget revenue_per_unit
       n_wells_in_sample n_top_wells =
     (let order = sort_values_desc predictions_valid;
          selected_idx = index (head n_top_wells order)
      in case loc target_valid selected_idx of
           Inl e \<Rightarrow> Inl e
         | Inr rows \<Rightarrow>
             (let total_product = sum_list (values_of rows);
                  revenue = total_product * revenue_per_unit;
                  profit = revenue - budget
              in Inr profit))"

text \<open>
  The rows whose values the revenue term adds up: the argument of \<^verbatim>\<open>.sum()\<close> in the source.
\<close>

definition revenue_rows :: "'l series \<Rightarrow> 'l series \<Rightarrow> int \<Rightarrow> error + 'l series" where
  "revenue_rows target_valid predictions_valid n_top_wells =
     loc target_valid (index (head n_top_wells (sort_values_desc predictions_valid)))"

text \<open>
  The profit as the docstring words it: of the wells of the sample (the positions of the two
  series), take the \<open>n_top_wells\<close> with the highest prediction, add up their actual values,
  multiply by the revenue per unit and subtract the budget.
\<close>

definition top_wells :: "'l series \<Rightarrow> 'l series \<Rightarrow> int \<Rightarrow> (real \<times> real) list" where
  "top_wells target_valid predictions_valid n_top_wells =
     head n_top_wells
       (sort_key (\<lambda>w. - snd w) (zip (values_of target_valid) (values_of predictions_valid)))"

definition top_wells_profit :: "'l series \<Rightarrow> 'l series \<Rightarrow> real \<Rightarrow> real \<Rightarrow> int \<Rightarrow> real" where
  "top_wells_profit target_valid predictions_valid budget revenue_per_unit n_top_wells =
     sum_list (map fst (top_wells target_valid predictions_valid n_top_wells)) * revenue_per_unit
       - budget"

subsection \<open>The random generator and the bootstrap\<close>

text \<open>
  NumPy's generator is a parameter: \<open>default_rng seed\<close> is the generator state that
  \<^verbatim>\<open>np.random.default_rng(seed)\<close> builds (from the seed when there is one, from the entropy of
  the operating system for \<^verbatim>\<open>None\<close>), and \<open>next_index g high\<close> is one bounded draw from
  \<open>{0..<high}\<close> together with the advanced state.
\<close>

record 'g generator =
  default_rng :: "int option \<Rightarrow> 'g"
  next_index :: "'g \<Rightarrow> nat \<Rightarrow> nat \<times> 'g"

definition draws_in_range :: "'g generator \<Rightarrow> bool" where
  "draws_in_range np = (\<forall>g high. 0 < high \<longrightarrow> fst (next_index np g high) < high)"

fun draw_indices :: "'g generator \<Rightarrow> 'g \<Rightarrow> nat \<Rightarrow> nat \<Rightarrow> nat list \<times> 'g" where
  "draw_indices np g high 0 = ([], g)"
| "draw_indices np g high (Suc k) =
     (case next_index np g high of
        (i, g1) \<Rightarrow> (case draw_indices np g1 high k of (js, g2) \<Rightarrow> (i # js, g2)))"

text \<open>
  \<^verbatim>\<open>rng.choice(a, size=size, replace=True)\<close>: \<open>size\<close> positions drawn one after the other, and
  the entries of \<open>a\<close> at them. A negative size and a draw from an empty array raise
  \<^verbatim>\<open>ValueError\<close>.
\<close>

definition choice :: "'g generator \<Rightarrow> 'g \<Rightarrow> 'a list \<Rightarrow> int \<Rightarrow> error + ('a list \<times> 'g)" where
  "choice np g a size_a =
     (if size_a < 0 then Inl ValueError
      else if a = [] \<and> size_a \<noteq> 0 then Inl ValueError
      else (case draw_indices np g (length a) (nat size_a) of
              (pos, g') \<Rightarrow> Inr (map (\<lambda>i. a ! i) pos, g')))"

text \<open>
  The body of the loop of \<^verbatim>\<open>bootstrap_profit\<close>: one sample of labels, the rows of both series
  at these labels, and the profit of the sample.
\<close>

definition bootstrap_step ::
  "'g generator \<Rightarrow> 'l series \<Rightarrow> 'l series \<Rightarrow> int \<Rightarrow> int \<Rightarrow> real \<Rightarrow> real \<Rightarrow> 'g
     \<Rightarrow> error + (real \<times> 'g)" where
  "bootstrap_step np target_valid predictions_valid n_wells_in_sample n_top_wells budget
       revenue_per_unit rng =
     (case choice np rng (index target_valid) n_wells_in_sample of
        Inl e \<Rightarrow> Inl e
      | Inr (sample_idx, rng') \<Rightarrow>
          (case loc target_valid sample_idx of
             Inl e \<Rightarrow> Inl e
           | Inr sample_target \<Rightarrow>
               (case loc predictions_valid sample_idx of
                  Inl e \<Rightarrow> Inl e
                | Inr sample_pred \<Rightarrow>
                    (case calculate_profit sample_target sample_pred budget revenue_per_unit
                            n_wells_in_sample n_top_wells of
                       Inl e \<Rightarrow> Inl e
                     | Inr profit \<Rightarrow> Inr (profit, rng')))))"

text \<open>
  \<^verbatim>\<open>for _ in range(n_iter)\<close>: the first argument counts the iterations still to run, \<open>rng\<close> is
  the state of the generator and \<open>profits\<close> the list built so far.
\<close>

fun bootstrap_loop ::
  "nat \<Rightarrow> 'g generator \<Rightarrow> 'l series \<Rightarrow> 'l series \<Rightarrow> int \<Rightarrow> int \<Rightarrow> real \<Rightarrow> real \<Rightarrow> 'g
     \<Rightarrow> real list \<Rightarrow> error + (real list \<times> 'g)" where
  "bootstrap_loop 0 np tv pv n_wells n_top budget revenue rng profits = Inr (profits, rng)"
| "bootstrap_loop (Suc k) np tv pv n_wells n_top budget revenue rng profits =
     (case bootstrap_step np tv pv n_wells n_top budget revenue rng of
        Inl e \<Rightarrow> Inl e
      | Inr (profit, rng') \<Rightarrow>
          bootstrap_loop k np tv pv n_wells n_top budget revenue rng' (profits @ [profit]))"

text \<open>
  \<^verbatim>\<open>np.percentile(a, q)\<close> with the default linear interpolation between the two order
  statistics around the position \<open>(n - 1) * q / 100\<close>. On an empty array NumPy raises; a
  percentage outside \<open>[0, 100]\<close> is a \<^verbatim>\<open>ValueError\<close>.
\<close>

definition percentile :: "real list \<Rightarrow> real \<Rightarrow> error + real" where
  "percentile a q =
     (if q < 0 \<or> 100 < q then Inl ValueError
      else if a = [] then Inl IndexError
      else (let s = sort a;
                n = length a;
                h = real (n - 1) * (q / 100);
                i = nat \<lfloor>h\<rfloor>;
                j = min (i + 1) (n - 1)
            in Inr (s ! i + (h - real i) * (s ! j - s ! i))))"

definition mean :: "real list \<Rightarrow> real" where
  "mean xs = sum_list xs / real (length xs)"

record bootstrap_result =
  mean_profit :: real
  ci_low :: real
  ci_high :: real
  risk :: real
  profits :: "real list"

definition bootstrap_profit ::
  "'g generator \<Rightarrow> 'l series \<Rightarrow> 'l series \<Rightarrow> int \<Rightarrow> int \<Rightarrow> int \<Rightarrow> real \<Rightarrow> real \<Rightarrow> int
     \<Rightarrow> error + bootstrap_result" where
  "bootstrap_profit np target_valid predictions_valid n_iter n_wells_in_sample n_top_wells
       budget revenue_per_unit random_state =
     (let rng = default_rng np (Some random_state)
      in case bootstrap_loop (nat n_iter) np target_valid predictions_valid n_wells_in_sample
                n_top_wells budget revenue_per_unit rng [] of
           Inl e \<Rightarrow> Inl e
         | Inr (ps, rng') \<Rightarrow>
             (case percentile ps (5 / 2) of
                Inl e \<Rightarrow> Inl e
              | Inr lo \<Rightarrow>
                  (case percentile ps (195 / 2) of
                     Inl e \<Rightarrow> Inl e
                   | Inr hi \<Rightarrow>
                       Inr \<lparr>mean_profit = mean ps,
                            ci_low = lo,
                            ci_high = hi,
                            risk = mean (map (\<lambda>p. if p < 0 then 1 else 0) ps),
                            profits = ps\<rparr>)))"

text \<open>
  The samples as the description of the procedure words them: \<open>k\<close> lists of \<open>m\<close> labels, each
  label drawn from the whole list \<open>a\<close> again (with replacement), and the profit of one sample.
\<close>

fun draw_samples :: "'g generator \<Rightarrow> 'g \<Rightarrow> 'a list \<Rightarrow> nat \<Rightarrow> nat \<Rightarrow> 'a list list" where
  "draw_samples np g a m 0 = []"
| "draw_samples np g a m (Suc k) =
     (case draw_indices np g (length a) m of
        (pos, g') \<Rightarrow> map (\<lambda>i. a ! i) pos # draw_samples np g' a m k)"

definition sample_profit ::
  "'l series \<Rightarrow> 'l series \<Rightarrow> real \<Rightarrow> real \<Rightarrow> int \<Rightarrow> int \<Rightarrow> 'l list \<Rightarrow> error + real" where
  "sample_profit target_valid predictions_valid budget revenue_per_unit n_wells_in_sample
       n_top_wells sample_idx =
     (case loc target_valid sample_idx of
        Inl e \<Rightarrow> Inl e
      | Inr sample_target \<Rightarrow>
          (case loc predictions_valid sample_idx of
             Inl e \<Rightarrow> Inl e
           | Inr sample_pred \<Rightarrow>
               calculate_profit sample_target sample_pred budget revenue_per_unit
                 n_wells_in_sample n_top_wells))"

subsection \<open>train_region\<close>

text \<open>
  A region's dataframe is the list of its rows: the label of the row, the features
  \<open>(f0, f1, f2)\<close> and the column \<^verbatim>\<open>product\<close>. scikit-learn is a parameter: \<open>permutation seed n\<close>
  is the shuffle of \<open>[0..<n]\<close> that \<^verbatim>\<open>train_test_split\<close> draws from its random state, and
  \<open>fit\<close> is the least-squares solver of \<^verbatim>\<open>LinearRegression\<close>, which returns the coefficients and
  the intercept.
\<close>

type_synonym features = "real \<times> real \<times> real"

type_synonym 'l frame = "('l \<times> features \<times> real) list"

record linear_model =
  coef :: features
  intercept :: real

record sklearn =
  permutation :: "int option \<Rightarrow> nat \<Rightarrow> nat list"
  fit :: "features list \<Rightarrow> real list \<Rightarrow> linear_model"

definition predict :: "linear_model \<Rightarrow> features \<Rightarrow> real" where
  "predict m x =
     (case coef m of (c0, c1, c2) \<Rightarrow>
        (case x of (x0, x1, x2) \<Rightarrow> x0 * c0 + x1 * c1 + x2 * c2 + intercept m))"

text \<open>
  \<^verbatim>\<open>train_test_split(features, target, test_size=0.25, random_state=random_state)\<close>: the test
  part has \<open>\<lceil>0.25 * n\<rceil>\<close> rows, the training part the others; an empty training part is a
  \<^verbatim>\<open>ValueError\<close>. The rows are taken by position along the shuffle, the test rows first.
\<close>

definition train_test_split ::
  "sklearn \<Rightarrow> 'a list \<Rightarrow> 'b list \<Rightarrow> int
     \<Rightarrow> error + ('a list \<times> 'a list \<times> 'b list \<times> 'b list)" where
  "train_test_split sk features target random_state =
     (let n_samples = length features;
          n_test = nat \<lceil>(1 / 4) * real n_samples\<rceil>;
          n_train = n_samples - n_test
      in if length target \<noteq> n_samples then Inl ValueError
         else if n_train = 0 then Inl ValueError
         else (let perm = permutation sk (Some random_state) n_samples;
                   ind_test = take n_test perm;
                   ind_train = take n_train (drop n_test perm)
               in Inr (map (\<lambda>i. features ! i) ind_train, map (\<lambda>i. features ! i) ind_test,
                       map (\<lambda>i. target ! i) ind_train, map (\<lambda>i. target ! i) ind_test)))"

text \<open>
  \<^verbatim>\<open>mean_squared_error(y_true, y_pred, squared=False)\<close> and \<^verbatim>\<open>r2_score(y_true, y_pred)\<close>.
  With fewer than two samples \<^verbatim>\<open>r2_score\<close> warns and returns NaN, which is \<open>None\<close> here; with a
  constant \<open>y_true\<close> it returns 1 for a perfect prediction and 0 otherwise.
\<close>

definition root_mean_squared_error :: "real list \<Rightarrow> real list \<Rightarrow> real" where
  "root_mean_squared_error y_true y_pred =
     sqrt (mean (map (\<lambda>(y, p). (y - p)\<^sup>2) (zip y_true y_pred)))"

definition r2_score :: "real list \<Rightarrow> real list \<Rightarrow> real option" where
  "r2_score y_true y_pred =
     (if length y_pred < 2 then None
      else (let numerator = sum_list (map (\<lambda>(y, p). (y - p)\<^sup>2) (zip y_true y_pred));
                denominator = sum_list (map (\<lambda>y. (y - mean y_true)\<^sup>2) y_true)
            in if denominator \<noteq> 0 then Some (1 - numerator / denominator)
               else if numerator \<noteq> 0 then Some 0
               else Some 1))"

record 'l train_result =
  region :: string
  model :: linear_model
  features_valid :: "('l \<times> features) list"
  target_valid :: "'l series"
  preds_valid :: "'l series"
  rmse :: real
  r2 :: "real option"
  mean_pred :: real

definition train_region :: "sklearn \<Rightarrow> 'l frame \<Rightarrow> string \<Rightarrow> int \<Rightarrow> error + 'l train_result" where
  "train_region sk df region_name random_state =
     (let features = map (\<lambda>(l, x, y). (l, x)) df;
          target = map (\<lambda>(l, x, y). (l, y)) df
      in case train_test_split sk features target random_state of
           Inl e \<Rightarrow> Inl e
         | Inr (features_train, features_val, target_train, target_val) \<Rightarrow>
             (let m = fit sk (map snd features_train) (values_of target_train);
                  preds_val = zip (index target_val) (map (\<lambda>(l, x). predict m x) features_val)
              in Inr \<lparr>region = region_name,
                      model = m,
                      features_valid = features_val,
                      target_valid = target_val,
                      preds_valid = preds_val,
                      rmse = root_mean_squared_error (values_of target_val) (values_of preds_val),
                      r2 = r2_score (values_of target_val) (values_of preds_val),
                      mean_pred = mean (values_of preds_val)\<rparr>))"

subsection \<open>load_region_data and main\<close>

text \<open>
  The file system is a map from paths to the data rows of a CSV file, each row its features
  and its product. \<^verbatim>\<open>pd.read_csv\<close> labels the rows \<open>0, 1, 2, \<dots>\<close> and raises
  \<^verbatim>\<open>FileNotFoundError\<close> for a path that is not there.
\<close>

type_synonym files = "string \<Rightarrow> (features \<times> real) list option"

definition read_csv :: "files \<Rightarrow> string \<Rightarrow> error + nat frame" where
  "read_csv fs path =
     (case fs path of
        None \<Rightarrow> Inl FileNotFoundError
      | Some rows \<Rightarrow> Inr (enumerate 0 rows))"

definition load_region_data ::
  "files \<Rightarrow> string \<Rightarrow> string \<Rightarrow> string \<Rightarrow> error + (string \<times> nat frame) list" where
  "load_region_data fs path_region_0 path_region_1 path_region_2 =
     (case read_csv fs path_region_0 of
        Inl e \<Rightarrow> Inl e
      | Inr df0 \<Rightarrow>
          (case read_csv fs path_region_1 of
             Inl e \<Rightarrow> Inl e
           | Inr df1 \<Rightarrow>
               (case read_csv fs path_region_2 of
                  Inl e \<Rightarrow> Inl e
                | Inr df2 \<Rightarrow> Inr [(''0'', df0), (''1'', df1), (''2'', df2)])))"

text \<open>The first loop of \<^verbatim>\<open>main\<close>: one \<^verbatim>\<open>train_region\<close> per item of the dictionary.\<close>

fun train_regions :: "sklearn \<Rightarrow> (string \<times> 'l frame) list \<Rightarrow> error + 'l train_result list" where
  "train_regions sk [] = Inr []"
| "train_regions sk ((region_name, df) # items) =
     (case train_region sk df region_name RANDOM_STATE of
        Inl e \<Rightarrow> Inl e
      | Inr res \<Rightarrow>
          (case train_regions sk items of
             Inl e \<Rightarrow> Inl e
           | Inr region_results \<Rightarrow> Inr (res # region_results)))"

text \<open>
  A row of the summary table. The columns are \<^verbatim>\<open>Region\<close>, \<^verbatim>\<open>Beneficio promedio (USD)\<close>,
  \<^verbatim>\<open>IC95% low (USD)\<close>, \<^verbatim>\<open>IC95% high (USD)\<close> and \<^verbatim>\<open>Riesgo de perdida (%)\<close>.
\<close>

record summary_row =
  row_region :: string
  beneficio_promedio :: real
  ic95_low :: real
  ic95_high :: real
  riesgo_de_perdida :: real

text \<open>The second loop of \<^verbatim>\<open>main\<close>: one \<^verbatim>\<open>bootstrap_profit\<close>, with its default arguments, per result.\<close>

fun summarise :: "'g generator \<Rightarrow> 'l train_result list \<Rightarrow> error + summary_row list" where
  "summarise np [] = Inr []"
| "summarise np (res # region_results) =
     (case bootstrap_profit np (target_valid res) (preds_valid res) N_BOOTSTRAP_ITER
             N_WELLS_PER_REGION N_TOP_WELLS BUDGET REVENUE_PER_THOUSAND_BARRELS RANDOM_STATE of
        Inl e \<Rightarrow> Inl e
      | Inr stats \<Rightarrow>
          (case summarise np region_results of
             Inl e \<Rightarrow> Inl e
           | Inr summary_rows \<Rightarrow>
               Inr (\<lparr>row_region = region res,
                     beneficio_promedio = mean_profit stats,
                     ic95_low = ci_low stats,
                     ic95_high = ci_high stats,
                     riesgo_de_perdida = risk stats * 100\<rparr> # summary_rows)))"

text \<open>
  \<^verbatim>\<open>summary_df.round(2).sort_values("Beneficio promedio (USD)", ascending=False)\<close>: every
  numeric column rounded to two decimals, then the rows by decreasing rounded mean profit.
  The rounding of one number is a parameter \<open>rnd\<close> of the model: NumPy computes
  \<^verbatim>\<open>rint(x * 100) / 100\<close> in floating point, and the product \<^verbatim>\<open>x * 100\<close> is itself rounded, so
  that no function of the real number \<open>x\<close> alone is claimed for it here.
\<close>

definition round_row :: "(real \<Rightarrow> real) \<Rightarrow> summary_row \<Rightarrow> summary_row" where
  "round_row rnd r =
     r\<lparr>beneficio_promedio := rnd (beneficio_promedio r),
       ic95_low := rnd (ic95_low r),
       ic95_high := rnd (ic95_high r),
       riesgo_de_perdida := rnd (riesgo_de_perdida r)\<rparr>"

definition rank_summary :: "(real \<Rightarrow> real) \<Rightarrow> summary_row list \<Rightarrow> summary_row list" where
  "rank_summary rnd summary_rows =
     sort_key (\<lambda>r. - beneficio_promedio r) (map (round_row rnd) summary_rows)"

text \<open>
  The same rounding in exact arithmetic, to the even neighbour at a tie: what \<^verbatim>\<open>round(2)\<close>
  computes wherever \<^verbatim>\<open>x * 100\<close> is exact, as it is for the whole numbers of the examples.
\<close>

definition rint :: "real \<Rightarrow> real" where
  "rint x =
     (let f = \<lfloor>x\<rfloor>; d = x - of_int f
      in if d < 1 / 2 then of_int f
         else if 1 / 2 < d then of_int f + 1
         else if even f then of_int f
         else of_int f + 1)"

definition round2 :: "real \<Rightarrow> real" where
  "round2 x = rint (x * 100) / 100"

text \<open>
  What \<^verbatim>\<open>main\<close> prints: the metrics of each region (name, RMSE, R2, mean prediction) in the
  order of training, and the ranked summary table. The number formatting of the printed
  lines is left out, and a run that raises has no report.
\<close>

record main_output =
  training_report :: "(string \<times> real \<times> real option \<times> real) list"
  summary_table :: "summary_row list"

definition main ::
  "files \<Rightarrow> sklearn \<Rightarrow> 'g generator \<Rightarrow> (real \<Rightarrow> real) \<Rightarrow> error + main_output" where
  "main fs sk np rnd =
     (case load_region_data fs ''Data/geo_data_0.csv'' ''Data/geo_data_1.csv''
             ''Data/geo_data_2.csv'' of
        Inl e \<Rightarrow> Inl e
      | Inr data_by_region \<Rightarrow>
          (case train_regions sk data_by_region of
             Inl e \<Rightarrow> Inl e
           | Inr region_results \<Rightarrow>
               (case summarise np region_results of
                  Inl e \<Rightarrow> Inl e
                | Inr summary_rows \<Rightarrow>
                    Inr \<lparr>training_report =
                           map (\<lambda>res. (region res, rmse res, r2 res, mean_pred res)) region_results,
                         summary_table = rank_summary rnd summary_rows\<rparr>)))"

text \<open>
  The selection the purpose statement describes: of the regions whose risk of loss (in
  percent) stays below a threshold, one with the highest mean profit.
\<close>

definition best_under_risk ::
  "(real \<Rightarrow> real) \<Rightarrow> real \<Rightarrow> summary_row list \<Rightarrow> summary_row option" where
  "best_under_risk rnd max_risk summary_rows =
     (case rank_summary rnd (filter (\<lambda>r. riesgo_de_perdida r < max_risk) summary_rows) of
        [] \<Rightarrow> None
      | r # rs \<Rightarrow> Some r)"

subsection \<open>A concrete generator for the examples\<close>

text \<open>
  A generator that reads its draws from a tape: the state is the list of positions still to
  come, a position beyond the bound counts as 0, and every seed starts the same tape.
\<close>

definition tape_generator :: "nat list generator" where
  "tape_generator =
     \<lparr>default_rng = (\<lambda>seed. case seed of None \<Rightarrow> [] | Some k \<Rightarrow> [0, 0, 1, 1]),
      next_index = (\<lambda>g high. case g of [] \<Rightarrow> (0, [])
                                | x # xs \<Rightarrow> (if x < high then x else 0, xs))\<rparr>"

text \<open>
  A second generator that differs from the first only in what it does without a seed.
\<close>

definition other_tape_generator :: "nat list generator" where
  "other_tape_generator =
     tape_generator\<lparr>default_rng := (\<lambda>seed. case seed of None \<Rightarrow> [1] | Some k \<Rightarrow> [0, 0, 1, 1])\<rparr>"

text \<open>
  Two stand-ins for scikit-learn: with a seed both leave the rows in their order, without one
  they differ; the fitted model predicts the mean of the training targets.
\<close>

definition plain_sklearn :: sklearn where
  "plain_sklearn =
     \<lparr>permutation = (\<lambda>seed n. case seed of None \<Rightarrow> rev [0..<n] | Some k \<Rightarrow> [0..<n]),
      fit = (\<lambda>xs ys. \<lparr>coef = (0, 0, 0), intercept = mean ys\<rparr>)\<rparr>"

definition other_sklearn :: sklearn where
  "other_sklearn = plain_sklearn\<lparr>permutation := (\<lambda>seed n. [0..<n])\<rparr>"

definition example_frame :: "nat frame" where
  "example_frame = [(0, (1, 0, 0), 10), (1, (0, 1, 0), 20), (2, (0, 0, 1), 30), (3, (1, 1, 1), 40)]"

subsection \<open>The split in words\<close>

text \<open>
  The positions of the validation rows and of the training rows: the first quarter of the
  shuffle, rounded up, and the rest.
\<close>

definition valid_positions :: "sklearn \<Rightarrow> int \<Rightarrow> nat \<Rightarrow> nat list" where
  "valid_positions sk seed n = take ((n + 3) div 4) (permutation sk (Some seed) n)"

definition train_positions :: "sklearn \<Rightarrow> int \<Rightarrow> nat \<Rightarrow> nat list" where
  "train_positions sk seed n = drop ((n + 3) div 4) (permutation sk (Some seed) n)"

text \<open>Three small files, and a summary table in which the most profitable region is risky.\<close>

definition example_files :: files where
  "example_files path =
     (if path = ''Data/geo_data_0.csv'' then Some [((1, 0, 0), 10), ((0, 1, 0), 20)]
      else if path = ''Data/geo_data_1.csv'' then Some [((1, 1, 0), 5), ((0, 1, 1), 7)]
      else if path = ''Data/geo_data_2.csv'' then Some [((1, 0, 1), 30), ((0, 0, 1), 2)]
      else None)"

definition example_summary :: "summary_row list" where
  "example_summary =
     [\<lparr>row_region = ''0'', beneficio_promedio = 100, ic95_low = - 50, ic95_high = 250,
       riesgo_de_perdida = 40\<rparr>,
      \<lparr>row_region = ''1'', beneficio_promedio = 50, ic95_low = 10, ic95_high = 90,
       riesgo_de_perdida = 1\<rparr>,
      \<lparr>row_region = ''2'', beneficio_promedio = 20, ic95_low = 5, ic95_high = 35,
       riesgo_de_perdida = 0\<rparr>]"

section \<open>Properties\<close>

subsection \<open>Sorting, head and label lookup\<close>

lemma insort_key_map:
  "insort_key f (g x) (map g xs) = map g (insort_key (\<lambda>y. f (g y)) x xs)"
  by (induction xs) simp_all

lemma sort_key_map: "sort_key f (map g xs) = map g (sort_key (\<lambda>y. f (g y)) xs)"
  by (induction xs) (simp_all add: insort_key_map)

lemma head_map: "head n (map g xs) = map g (head n xs)"
  by (simp add: head_def take_map)

lemma set_head: "set (head n xs) \<subseteq> set xs"
  by (auto simp: head_def dest: in_set_takeD)

lemma length_head_nonneg: "0 \<le> n \<Longrightarrow> length (head n xs) = min (nat n) (length xs)"
  by (simp add: head_def)

lemma head_all: "int (length xs) \<le> n \<Longrightarrow> head n xs = xs"
  by (simp add: head_def)

lemma rows_with_distinct:
  "distinct (index s) \<Longrightarrow> (k, v) \<in> set s \<Longrightarrow> rows_with s k = [(k, v)]"
proof (induction s)
  case Nil
  then show ?case by simp
next
  case (Cons r s)
  show ?case
  proof (cases "r = (k, v)")
    case True
    with Cons.prems have "k \<notin> fst ` set s" by (simp add: index_def)
    then have "filter (\<lambda>r. fst r = k) s = []"
      by (auto simp: filter_empty_conv)
    with True show ?thesis by (simp add: rows_with_def)
  next
    case False
    with Cons.prems have in_s: "(k, v) \<in> set s" and d: "distinct (index s)"
      and "fst r \<notin> fst ` set s"
      by (auto simp: index_def)
    then have "fst r \<noteq> k" by (metis fst_conv imageI)
    with Cons.IH [OF d in_s] show ?thesis by (simp add: rows_with_def)
  qed
qed

lemma loc_distinct:
  "distinct (index s) \<Longrightarrow> set rs \<subseteq> set s \<Longrightarrow> loc s (index rs) = Inr rs"
proof (induction rs)
  case Nil
  then show ?case by (simp add: index_def)
next
  case (Cons r rs)
  obtain k v where r: "r = (k, v)" by (cases r)
  with Cons.prems have "rows_with s k = [(k, v)]"
    by (auto intro: rows_with_distinct)
  moreover from Cons have "loc s (index rs) = Inr rs" by simp
  ultimately show ?case by (simp add: r index_def)
qed

subsection \<open>The profit of a sample whose labels are distinct\<close>

lemma series_as_wells:
  assumes "index p = index t"
  defines "ws \<equiv> zip (index t) (zip (values_of t) (values_of p))"
  shows "t = map (\<lambda>w. (fst w, fst (snd w))) ws"
    and "p = map (\<lambda>w. (fst w, snd (snd w))) ws"
    and "zip (values_of t) (values_of p) = map snd ws"
proof -
  from assms(1) have len: "length p = length t"
    by (metis index_def length_map)
  show "t = map (\<lambda>w. (fst w, fst (snd w))) ws"
    using len by (auto simp: ws_def index_def values_of_def list_eq_iff_nth_eq)
  show "p = map (\<lambda>w. (fst w, snd (snd w))) ws"
  proof (rule nth_equalityI)
    show "length p = length (map (\<lambda>w. (fst w, snd (snd w))) ws)"
      using len by (simp add: ws_def index_def values_of_def)
  next
    fix i assume i: "i < length p"
    with assms(1) have "fst (p ! i) = fst (t ! i)"
      using len by (metis index_def nth_map)
    with i len show "p ! i = map (\<lambda>w. (fst w, snd (snd w))) ws ! i"
      by (simp add: ws_def index_def values_of_def prod_eq_iff)
  qed
  show "zip (values_of t) (values_of p) = map snd ws"
    using len by (auto simp: ws_def index_def values_of_def list_eq_iff_nth_eq)
qed

lemma revenue_rows_distinct:
  fixes n :: int and t p :: "'l series"
  assumes d: "distinct (index t)" and ip: "index p = index t"
  defines "ys \<equiv> head n (sort_key (\<lambda>w. - snd (snd w)) (zip (index t) (zip (values_of t) (values_of p))))"
  shows "revenue_rows t p n = Inr (map (\<lambda>w. (fst w, fst (snd w))) ys)"
    and "top_wells t p n = map snd ys"
proof -
  define ws where "ws = zip (index t) (zip (values_of t) (values_of p))"
  note sw = series_as_wells [OF ip, folded ws_def]
  have ys: "ys = head n (sort_key (\<lambda>w. - snd (snd w)) ws)"
    by (simp add: ys_def ws_def)
  have "sort_values_desc p = map (\<lambda>w. (fst w, snd (snd w))) (sort_key (\<lambda>w. - snd (snd w)) ws)"
    unfolding sort_values_desc_def by (subst sw(2)) (simp add: sort_key_map)
  then have sel: "index (head n (sort_values_desc p)) = index (map (\<lambda>w. (fst w, fst (snd w))) ys)"
    by (simp add: head_map ys index_def comp_def)
  have "set ys \<subseteq> set ws"
    unfolding ys using set_head [of n "sort_key (\<lambda>w. - snd (snd w)) ws"] by simp
  then have "set (map (\<lambda>w. (fst w, fst (snd w))) ys) \<subseteq> set (map (\<lambda>w. (fst w, fst (snd w))) ws)"
    by auto
  then have "set (map (\<lambda>w. (fst w, fst (snd w))) ys) \<subseteq> set t"
    using sw(1) by simp
  from loc_distinct [OF d this] show "revenue_rows t p n = Inr (map (\<lambda>w. (fst w, fst (snd w))) ys)"
    by (simp add: revenue_rows_def sel)
  show "top_wells t p n = map snd ys"
    unfolding top_wells_def by (subst sw(3)) (simp add: sort_key_map head_map ys)
qed

lemma calculate_profit_revenue_rows:
  "calculate_profit t p b r w n =
     (case revenue_rows t p n of Inl e \<Rightarrow> Inl e
      | Inr rows \<Rightarrow> Inr (sum_list (values_of rows) * r - b))"
  by (simp add: calculate_profit_def revenue_rows_def Let_def split: sum.splits)

lemma calculate_profit_distinct:
  assumes "distinct (index t)" and "index p = index t"
  shows "calculate_profit t p b r w n = Inr (top_wells_profit t p b r n)"
  by (simp add: calculate_profit_revenue_rows revenue_rows_distinct [OF assms]
      top_wells_profit_def values_of_def comp_def)

lemma length_revenue_rows_distinct:
  assumes "distinct (index t)" and "index p = index t" and "0 \<le> n"
  shows "\<exists>rows. revenue_rows t p n = Inr rows \<and> length rows = min (nat n) (length t)"
proof -
  from assms(2) have "length p = length t" by (metis index_def length_map)
  then show ?thesis
    by (simp add: revenue_rows_distinct(1) [OF assms(1,2)] length_head_nonneg [OF assms(3)]
        index_def values_of_def)
qed

subsection \<open>Lookups and draws that succeed\<close>

lemma loc_Inr_D:
  "loc s ks = Inr rows \<Longrightarrow> set (index rows) = set ks \<and> set rows \<subseteq> set s"
proof (induction ks arbitrary: rows)
  case Nil
  then show ?case by (simp add: index_def)
next
  case (Cons k ks)
  from Cons.prems obtain r rs rest where rw: "rows_with s k = r # rs"
    and rest: "loc s ks = Inr rest" and rows: "rows = (r # rs) @ rest"
    by (auto split: list.splits sum.splits)
  have "set (rows_with s k) = {x \<in> set s. fst x = k}"
    by (simp add: rows_with_def)
  with rw have "set (r # rs) = {x \<in> set s. fst x = k}" by simp
  then have "set (r # rs) \<subseteq> set s" and "fst ` set (r # rs) = {k}"
    by auto
  with Cons.IH [OF rest] rows show ?case
    by (auto simp: index_def image_Un)
qed

lemma rows_with_nonempty: "k \<in> set (index s) \<Longrightarrow> rows_with s k \<noteq> []"
  by (auto simp: rows_with_def index_def filter_empty_conv)

lemma loc_total: "set ks \<subseteq> set (index s) \<Longrightarrow> \<exists>rows. loc s ks = Inr rows"
proof (induction ks)
  case Nil
  then show ?case by simp
next
  case (Cons k ks)
  then obtain rest where "loc s ks = Inr rest" by auto
  moreover from Cons.prems have "rows_with s k \<noteq> []" by (simp add: rows_with_nonempty)
  ultimately show ?case by (auto split: list.splits)
qed

lemma calculate_profit_total:
  assumes "set (index p) \<subseteq> set (index t)"
  shows "\<exists>profit. calculate_profit t p b r w n = Inr profit"
proof -
  have "set (head n (sort_values_desc p)) \<subseteq> set p"
    using set_head [of n "sort_values_desc p"] by (simp add: sort_values_desc_def)
  then have "set (index (head n (sort_values_desc p))) \<subseteq> set (index p)"
    by (auto simp: index_def)
  with assms have "set (index (head n (sort_values_desc p))) \<subseteq> set (index t)" by blast
  from loc_total [OF this] show ?thesis
    by (auto simp: calculate_profit_revenue_rows revenue_rows_def)
qed

lemma sample_profit_total:
  assumes "set ks \<subseteq> set (index tv)" and "set ks \<subseteq> set (index pv)"
  shows "\<exists>profit. sample_profit tv pv b r w n ks = Inr profit"
proof -
  from loc_total [OF assms(1)] obtain st where st: "loc tv ks = Inr st" by blast
  from loc_total [OF assms(2)] obtain sp where sp: "loc pv ks = Inr sp" by blast
  from loc_Inr_D [OF st] loc_Inr_D [OF sp] have "set (index sp) \<subseteq> set (index st)" by simp
  from calculate_profit_total [OF this] st sp show ?thesis
    by (simp add: sample_profit_def)
qed

lemma draw_indices_Suc:
  "draw_indices np g high (Suc k) =
     (fst (next_index np g high) # fst (draw_indices np (snd (next_index np g high)) high k),
      snd (draw_indices np (snd (next_index np g high)) high k))"
  by (simp split: prod.splits)

lemma length_draw_indices: "length (fst (draw_indices np g high k)) = k"
  by (induction k arbitrary: g) (simp_all add: draw_indices_Suc del: draw_indices.simps(2))

lemma draw_indices_in_range:
  "draws_in_range np \<Longrightarrow> 0 < high \<Longrightarrow> i \<in> set (fst (draw_indices np g high k)) \<Longrightarrow> i < high"
proof (induction k arbitrary: g)
  case 0
  then show ?case by simp
next
  case (Suc k)
  from Suc.prems(1,2) have "fst (next_index np g high) < high"
    unfolding draws_in_range_def by blast
  with Suc show ?case
    by (auto simp: draw_indices_Suc simp del: draw_indices.simps(2))
qed

lemma draw_indices_add:
  "snd (draw_indices np g high (a + b)) =
     snd (draw_indices np (snd (draw_indices np g high a)) high b)"
  by (induction a arbitrary: g) (simp_all add: draw_indices_Suc del: draw_indices.simps(2))

lemma bootstrap_step_sample:
  "bootstrap_step np tv pv n_wells n_top b r g =
     (case choice np g (index tv) n_wells of
        Inl e \<Rightarrow> Inl e
      | Inr (ks, g') \<Rightarrow>
          (case sample_profit tv pv b r n_wells n_top ks of
             Inl e \<Rightarrow> Inl e
           | Inr profit \<Rightarrow> Inr (profit, g')))"
  by (simp add: bootstrap_step_def sample_profit_def split: sum.splits prod.splits)

lemma choice_Inr_D:
  assumes "choice np g a m = Inr (ks, g')"
  shows "0 \<le> m" and "ks = map (\<lambda>i. a ! i) (fst (draw_indices np g (length a) (nat m)))"
    and "g' = snd (draw_indices np g (length a) (nat m))" and "length ks = nat m"
  using assms length_draw_indices [of np g "length a" "nat m"]
  by (auto simp: choice_def split: if_splits prod.splits)

lemma choice_total:
  assumes "0 \<le> m" and "a \<noteq> []"
  shows "choice np g a m = Inr (map (\<lambda>i. a ! i) (fst (draw_indices np g (length a) (nat m))),
           snd (draw_indices np g (length a) (nat m)))"
  using assms by (simp add: choice_def split: prod.splits)

lemma choice_labels:
  assumes "draws_in_range np" and "choice np g a m = Inr (ks, g')"
  shows "set ks \<subseteq> set a"
proof (cases "a = []")
  case True
  with assms(2) show ?thesis by (auto simp: choice_def split: if_splits)
next
  case False
  then have "0 < length a" by simp
  from draw_indices_in_range [OF assms(1) this] choice_Inr_D(2) [OF assms(2)]
  show ?thesis by auto
qed

subsection \<open>The bootstrap loop\<close>

lemma draw_samples_Suc:
  "draw_samples np g a m (Suc k) =
     map (\<lambda>i. a ! i) (fst (draw_indices np g (length a) m))
       # draw_samples np (snd (draw_indices np g (length a) m)) a m k"
  by (simp split: prod.splits)

lemma length_draw_samples: "length (draw_samples np g a m k) = k"
  by (induction k arbitrary: g) (simp_all add: draw_samples_Suc del: draw_samples.simps(2))

lemma draw_samples_shape:
  "s \<in> set (draw_samples np g a m k) \<Longrightarrow> length s = m"
  by (induction k arbitrary: g)
    (auto simp: draw_samples_Suc length_draw_indices simp del: draw_samples.simps(2))

lemma draw_samples_labels:
  assumes "draws_in_range np" and "a \<noteq> []"
  shows "s \<in> set (draw_samples np g a m k) \<Longrightarrow> set s \<subseteq> set a"
proof (induction k arbitrary: g)
  case 0
  then show ?case by simp
next
  case (Suc k)
  from assms(2) have "0 < length a" by simp
  from draw_indices_in_range [OF assms(1) this]
  have "set (map (\<lambda>i. a ! i) (fst (draw_indices np g (length a) m))) \<subseteq> set a"
    by auto
  with Suc show ?case
    by (auto simp: draw_samples_Suc simp del: draw_samples.simps(2))
qed

lemma bootstrap_loop_Suc_Inr:
  assumes "bootstrap_loop (Suc k) np tv pv m n b r g acc = Inr (ps', g')"
  obtains profit g1 where "bootstrap_step np tv pv m n b r g = Inr (profit, g1)"
    and "bootstrap_loop k np tv pv m n b r g1 (acc @ [profit]) = Inr (ps', g')"
proof (cases "bootstrap_step np tv pv m n b r g")
  case (Inl e)
  with assms show ?thesis by simp
next
  case (Inr pg)
  obtain profit g1 where "pg = (profit, g1)" by (cases pg)
  with Inr assms that show ?thesis by simp
qed

lemma bootstrap_step_Inr:
  assumes "bootstrap_step np tv pv m n b r g = Inr (profit, g1)"
  obtains ks where "choice np g (index tv) m = Inr (ks, g1)"
    and "sample_profit tv pv b r m n ks = Inr profit"
proof (cases "choice np g (index tv) m")
  case (Inl e)
  with assms show ?thesis by (simp add: bootstrap_step_sample)
next
  case (Inr kg)
  obtain ks g2 where kg: "kg = (ks, g2)" by (cases kg)
  show ?thesis
  proof (cases "sample_profit tv pv b r m n ks")
    case (Inl e)
    with Inr kg assms show ?thesis by (simp add: bootstrap_step_sample)
  next
    case (Inr q)
    with \<open>choice np g (index tv) m = Inr kg\<close> kg assms that show ?thesis
      by (simp add: bootstrap_step_sample)
  qed
qed

lemma bootstrap_loop_Inr_D:
  "bootstrap_loop k np tv pv m n b r g acc = Inr (ps', g') \<Longrightarrow>
     \<exists>ps. ps' = acc @ ps \<and> length ps = k
       \<and> g' = snd (draw_indices np g (length tv) (k * nat m))
       \<and> map Inr ps = map (sample_profit tv pv b r m n) (draw_samples np g (index tv) (nat m) k)"
proof (induction k arbitrary: g acc)
  case 0
  then show ?case by simp
next
  case (Suc k)
  from Suc.prems obtain profit g1 where step: "bootstrap_step np tv pv m n b r g = Inr (profit, g1)"
    and rest: "bootstrap_loop k np tv pv m n b r g1 (acc @ [profit]) = Inr (ps', g')"
    by (rule bootstrap_loop_Suc_Inr)
  from step obtain ks where ch: "choice np g (index tv) m = Inr (ks, g1)"
    and sp: "sample_profit tv pv b r m n ks = Inr profit"
    by (rule bootstrap_step_Inr)
  have len: "length (index tv) = length tv" by (simp add: index_def)
  note c = choice_Inr_D [OF ch, unfolded len]
  from Suc.IH [OF rest] obtain ps where ps: "ps' = (acc @ [profit]) @ ps" "length ps = k"
    "g' = snd (draw_indices np g1 (length tv) (k * nat m))"
    "map Inr ps = map (sample_profit tv pv b r m n) (draw_samples np g1 (index tv) (nat m) k)"
    by blast
  have "Suc k * nat m = nat m + k * nat m" by simp
  then have g': "g' = snd (draw_indices np g (length tv) (Suc k * nat m))"
    by (simp only: draw_indices_add ps(3) c(3))
  have "draw_samples np g (index tv) (nat m) (Suc k) = ks # draw_samples np g1 (index tv) (nat m) k"
    by (simp only: draw_samples_Suc len c(2) c(3))
  then have "map Inr (profit # ps) =
      map (sample_profit tv pv b r m n) (draw_samples np g (index tv) (nat m) (Suc k))"
    by (simp only: list.map ps(4) sp)
  with g' ps(1,2) show ?case
    by (intro exI [of _ "profit # ps"]) simp
qed

lemma bootstrap_loop_total:
  assumes "draws_in_range np" and "tv \<noteq> []" and "set (index tv) \<subseteq> set (index pv)" and "0 \<le> m"
  shows "\<exists>ps g'. bootstrap_loop k np tv pv m n b r g acc = Inr (ps, g')"
proof (induction k arbitrary: g acc)
  case 0
  show ?case by simp
next
  case (Suc k)
  from assms(2) have ne: "index tv \<noteq> []" by (simp add: index_def)
  define ks where "ks = map (\<lambda>i. index tv ! i) (fst (draw_indices np g (length (index tv)) (nat m)))"
  define g1 where "g1 = snd (draw_indices np g (length (index tv)) (nat m))"
  have ch: "choice np g (index tv) m = Inr (ks, g1)"
    unfolding ks_def g1_def by (rule choice_total [OF assms(4) ne])
  from choice_labels [OF assms(1) ch] have sub: "set ks \<subseteq> set (index tv)" .
  with assms(3) have "set ks \<subseteq> set (index pv)" by blast
  from sample_profit_total [OF sub this] obtain profit
    where "sample_profit tv pv b r m n ks = Inr profit" by blast
  with ch have step: "bootstrap_step np tv pv m n b r g = Inr (profit, g1)"
    by (simp add: bootstrap_step_sample)
  from Suc.IH obtain ps g' where "bootstrap_loop k np tv pv m n b r g1 (acc @ [profit]) = Inr (ps, g')"
    by blast
  with step have "bootstrap_loop (Suc k) np tv pv m n b r g acc = Inr (ps, g')"
    by simp
  then show ?case by blast
qed

subsection \<open>Percentiles and the risk\<close>

lemma percentile_total:
  "a \<noteq> [] \<Longrightarrow> 0 \<le> q \<Longrightarrow> q \<le> 100 \<Longrightarrow> \<exists>v. percentile a q = Inr v"
  by (simp add: percentile_def Let_def)

lemma percentile_Inr_D: "percentile a q = Inr v \<Longrightarrow> a \<noteq> [] \<and> 0 \<le> q \<and> q \<le> 100"
  by (auto simp: percentile_def split: if_splits)

lemma interpolation_bounds:
  fixes s :: "real list"
  assumes srt: "sorted s" and h0: "0 \<le> h" and hn: "h \<le> real (length s - 1)" and ne: "s \<noteq> []"
  defines "i \<equiv> nat \<lfloor>h\<rfloor>"
  defines "j \<equiv> min (i + 1) (length s - 1)"
  defines "v \<equiv> s ! i + (h - real i) * (s ! j - s ! i)"
  shows "i \<le> length s - 1" and "s ! i \<le> v" and "v \<le> s ! j"
proof -
  from h0 have ri: "real i = of_int \<lfloor>h\<rfloor>" by (simp add: i_def)
  then have frac: "0 \<le> h - real i" "h - real i \<le> 1"
    by linarith+
  from hn have "\<lfloor>h\<rfloor> \<le> int (length s - 1)" by linarith
  then show il: "i \<le> length s - 1" by (simp add: i_def)
  from ne have "length s - 1 < length s" by (cases s) simp_all
  with il have "i \<le> j" "j < length s" by (simp_all add: j_def)
  with srt have d: "s ! i \<le> s ! j" by (simp add: sorted_nth_mono)
  with frac(1) show "s ! i \<le> v" by (simp add: v_def)
  from frac(2) d have "(h - real i) * (s ! j - s ! i) \<le> 1 * (s ! j - s ! i)"
    by (intro mult_right_mono) simp_all
  then show "v \<le> s ! j" by (simp add: v_def)
qed

lemma interpolation_mono:
  fixes s :: "real list"
  assumes srt: "sorted s" and ne: "s \<noteq> []"
    and h1: "0 \<le> h1" and h12: "h1 \<le> h2" and h2: "h2 \<le> real (length s - 1)"
  shows "s ! nat \<lfloor>h1\<rfloor> + (h1 - real (nat \<lfloor>h1\<rfloor>))
             * (s ! min (nat \<lfloor>h1\<rfloor> + 1) (length s - 1) - s ! nat \<lfloor>h1\<rfloor>)
         \<le> s ! nat \<lfloor>h2\<rfloor> + (h2 - real (nat \<lfloor>h2\<rfloor>))
             * (s ! min (nat \<lfloor>h2\<rfloor> + 1) (length s - 1) - s ! nat \<lfloor>h2\<rfloor>)"
    (is "?v1 \<le> ?v2")
proof -
  let ?i1 = "nat \<lfloor>h1\<rfloor>" and ?i2 = "nat \<lfloor>h2\<rfloor>"
  let ?j1 = "min (?i1 + 1) (length s - 1)" and ?j2 = "min (?i2 + 1) (length s - 1)"
  from h1 h12 h2 have h1n: "h1 \<le> real (length s - 1)" and h20: "0 \<le> h2" by linarith+
  note b1 = interpolation_bounds [OF srt h1 h1n ne]
  note b2 = interpolation_bounds [OF srt h20 h2 ne]
  from h12 have "\<lfloor>h1\<rfloor> \<le> \<lfloor>h2\<rfloor>" by (rule floor_mono)
  then have i12: "?i1 \<le> ?i2" by simp
  show ?thesis
  proof (cases "?i1 = ?i2")
    case True
    from ne have "length s - 1 < length s" by (cases s) simp_all
    with b1(1) have "?i1 \<le> ?j1" "?j1 < length s" by simp_all
    with srt have "0 \<le> s ! ?j1 - s ! ?i1" by (simp add: sorted_nth_mono)
    with h12 have "(h1 - real ?i1) * (s ! ?j1 - s ! ?i1) \<le> (h2 - real ?i1) * (s ! ?j1 - s ! ?i1)"
      by (intro mult_right_mono) simp_all
    with True show ?thesis by simp
  next
    case False
    with i12 have "?i1 + 1 \<le> ?i2" by simp
    then have "?j1 \<le> ?i2" by simp
    moreover from ne b2(1) have "?i2 < length s" by (cases s) simp_all
    ultimately have "s ! ?j1 \<le> s ! ?i2" using srt by (simp add: sorted_nth_mono)
    with b1(3) b2(2) show ?thesis by linarith
  qed
qed

lemma percentile_mono:
  assumes "percentile a q1 = Inr v1" and "percentile a q2 = Inr v2" and "q1 \<le> q2"
  shows "v1 \<le> v2"
proof -
  from percentile_Inr_D [OF assms(1)] percentile_Inr_D [OF assms(2)]
  have ne: "a \<noteq> []" and q: "0 \<le> q1" "q2 \<le> 100" "0 \<le> q2" "q1 \<le> 100" by simp_all
  let ?s = "sort a"
  let ?h1 = "real (length a - 1) * (q1 / 100)" and ?h2 = "real (length a - 1) * (q2 / 100)"
  have len: "length ?s = length a" by simp
  from ne have ne': "?s \<noteq> []" by (metis len length_0_conv)
  have "0 \<le> ?h1" using q(1) by simp
  moreover have "?h1 \<le> ?h2" using assms(3) by (intro mult_left_mono) simp_all
  moreover have "?h2 \<le> real (length ?s - 1)"
  proof -
    from q(2) have "q2 / 100 \<le> 1" by simp
    then have "real (length a - 1) * (q2 / 100) \<le> real (length a - 1) * 1"
      by (intro mult_left_mono) simp_all
    then show ?thesis by simp
  qed
  ultimately have "?s ! nat \<lfloor>?h1\<rfloor> + (?h1 - real (nat \<lfloor>?h1\<rfloor>))
             * (?s ! min (nat \<lfloor>?h1\<rfloor> + 1) (length ?s - 1) - ?s ! nat \<lfloor>?h1\<rfloor>)
         \<le> ?s ! nat \<lfloor>?h2\<rfloor> + (?h2 - real (nat \<lfloor>?h2\<rfloor>))
             * (?s ! min (nat \<lfloor>?h2\<rfloor> + 1) (length ?s - 1) - ?s ! nat \<lfloor>?h2\<rfloor>)"
    by (rule interpolation_mono [OF sorted_sort ne'])
  moreover from assms(1) ne q have "v1 = ?s ! nat \<lfloor>?h1\<rfloor> + (?h1 - real (nat \<lfloor>?h1\<rfloor>))
             * (?s ! min (nat \<lfloor>?h1\<rfloor> + 1) (length ?s - 1) - ?s ! nat \<lfloor>?h1\<rfloor>)"
    by (simp add: percentile_def Let_def)
  moreover from assms(2) ne q have "v2 = ?s ! nat \<lfloor>?h2\<rfloor> + (?h2 - real (nat \<lfloor>?h2\<rfloor>))
             * (?s ! min (nat \<lfloor>?h2\<rfloor> + 1) (length ?s - 1) - ?s ! nat \<lfloor>?h2\<rfloor>)"
    by (simp add: percentile_def Let_def)
  ultimately show ?thesis by simp
qed

lemma sum_list_indicator:
  "sum_list (map (\<lambda>p. if p < 0 then 1 else 0) ps) = real (length (filter (\<lambda>p. p < 0) ps))"
  for ps :: "real list"
  by (induction ps) simp_all

lemma risk_count:
  "mean (map (\<lambda>p. if p < 0 then 1 else 0) ps)
     = real (length (filter (\<lambda>p. p < 0) ps)) / real (length ps)"
  for ps :: "real list"
  unfolding mean_def by (simp only: sum_list_indicator length_map)

lemma risk_bounds:
  fixes ps :: "real list"
  assumes "ps \<noteq> []"
  shows "0 \<le> mean (map (\<lambda>p. if p < 0 then 1 else 0) ps)"
    and "mean (map (\<lambda>p. if p < 0 then 1 else 0) ps) \<le> 1"
proof -
  show "0 \<le> mean (map (\<lambda>p. if p < 0 then 1 else 0) ps)"
    by (simp only: risk_count) simp
  have "length (filter (\<lambda>p. p < 0) ps) \<le> length ps" by simp
  with assms show "mean (map (\<lambda>p. if p < 0 then 1 else 0) ps) \<le> 1"
    by (simp only: risk_count) simp
qed

lemma sum_list_sort_key: "sum_list (map f (sort_key k xs)) = sum_list (map f xs)"
  for f :: "'a \<Rightarrow> real"
proof -
  have "mset (map f (sort_key k xs)) = mset (map f xs)" by simp
  from arg_cong [OF this, of sum_mset] show ?thesis
    by (simp only: sum_mset_sum_list)
qed

lemma calculate_profit_all_wells_distinct:
  fixes t p :: "'l series"
  assumes d: "distinct (index t)" and ip: "index p = index t" and n: "int (length t) \<le> n"
  shows "calculate_profit t p b r w n = Inr (sum_list (values_of t) * r - b)"
proof -
  define ws where "ws = zip (index t) (zip (values_of t) (values_of p))"
  from ip have "length p = length t" by (metis index_def length_map)
  then have len: "length ws = length t"
    by (simp add: ws_def index_def values_of_def)
  have t: "t = map (\<lambda>w. (fst w, fst (snd w))) ws"
    unfolding ws_def by (rule series_as_wells(1) [OF ip])
  have "head n (sort_key (\<lambda>w. - snd (snd w)) ws) = sort_key (\<lambda>w. - snd (snd w)) ws"
    using n len by (simp add: head_all)
  with revenue_rows_distinct(1) [OF d ip, of n]
  have rr: "revenue_rows t p n = Inr (map (\<lambda>w. (fst w, fst (snd w))) (sort_key (\<lambda>w. - snd (snd w)) ws))"
    by (simp add: ws_def)
  have "values_of t = map (\<lambda>w. fst (snd w)) ws"
    by (subst t) (simp add: values_of_def comp_def)
  then have "sum_list (map (\<lambda>w. fst (snd w)) (sort_key (\<lambda>w. - snd (snd w)) ws))
      = sum_list (values_of t)"
    by (simp only: sum_list_sort_key)
  then show ?thesis
    by (simp add: calculate_profit_revenue_rows rr values_of_def comp_def)
qed

subsection \<open>The result of the bootstrap\<close>

lemma draws_in_range_tape: "draws_in_range tape_generator"
  by (simp add: draws_in_range_def tape_generator_def split: list.splits)

lemma bootstrap_profit_total:
  assumes "draws_in_range np" and "tv \<noteq> []" and "set (index tv) \<subseteq> set (index pv)"
    and "1 \<le> n_iter" and "0 \<le> m"
  shows "\<exists>res. bootstrap_profit np tv pv n_iter m n b r seed = Inr res"
proof -
  from bootstrap_loop_total [OF assms(1,2,3,5)] obtain ps g'
    where loop: "bootstrap_loop (nat n_iter) np tv pv m n b r (default_rng np (Some seed)) [] = Inr (ps, g')"
    by blast
  from bootstrap_loop_Inr_D [OF loop] obtain qs where "ps = [] @ qs" and "length qs = nat n_iter"
    by blast
  with assms(4) have "ps \<noteq> []" by auto
  from percentile_total [OF this, of "5 / 2"] obtain lo where lo: "percentile ps (5 / 2) = Inr lo"
    by auto
  from percentile_total [OF \<open>ps \<noteq> []\<close>, of "195 / 2"] obtain hi where hi: "percentile ps (195 / 2) = Inr hi"
    by auto
  show ?thesis
    by (simp add: bootstrap_profit_def loop lo hi)
qed

lemma bootstrap_profit_Inr_D:
  assumes "bootstrap_profit np tv pv n_iter m n b r seed = Inr res"
  obtains ps g' where
    "bootstrap_loop (nat n_iter) np tv pv m n b r (default_rng np (Some seed)) [] = Inr (ps, g')"
    and "percentile ps (5 / 2) = Inr (ci_low res)"
    and "percentile ps (195 / 2) = Inr (ci_high res)"
    and "mean_profit res = mean ps"
    and "risk res = mean (map (\<lambda>p. if p < 0 then 1 else 0) ps)"
    and "profits res = ps"
proof (cases "bootstrap_loop (nat n_iter) np tv pv m n b r (default_rng np (Some seed)) []")
  case (Inl e)
  with assms show ?thesis by (simp add: bootstrap_profit_def)
next
  case (Inr pg)
  obtain ps g' where pg: "pg = (ps, g')" by (cases pg)
  show ?thesis
  proof (cases "percentile ps (5 / 2)")
    case (Inl e)
    with Inr pg assms show ?thesis by (simp add: bootstrap_profit_def)
  next
    case lo: (Inr lo)
    show ?thesis
    proof (cases "percentile ps (195 / 2)")
      case (Inl e)
      with Inr pg lo assms show ?thesis by (simp add: bootstrap_profit_def)
    next
      case hi: (Inr hi)
      from Inr pg lo hi assms have "res = \<lparr>mean_profit = mean ps, ci_low = lo, ci_high = hi,
          risk = mean (map (\<lambda>p. if p < 0 then 1 else 0) ps), profits = ps\<rparr>"
        by (simp add: bootstrap_profit_def)
      with Inr pg lo hi that show ?thesis by simp
    qed
  qed
qed

lemma draw_indices_cong:
  "next_index np1 = next_index np2 \<Longrightarrow> draw_indices np1 g high k = draw_indices np2 g high k"
  by (induction k arbitrary: g) (simp_all add: draw_indices_Suc del: draw_indices.simps(2))

lemma bootstrap_step_cong:
  "next_index np1 = next_index np2 \<Longrightarrow>
     bootstrap_step np1 tv pv m n b r g = bootstrap_step np2 tv pv m n b r g"
  by (simp add: bootstrap_step_def choice_def draw_indices_cong [of np1 np2])

lemma bootstrap_loop_cong:
  "next_index np1 = next_index np2 \<Longrightarrow>
     bootstrap_loop k np1 tv pv m n b r g acc = bootstrap_loop k np2 tv pv m n b r g acc"
  by (induction k arbitrary: g acc)
    (simp_all add: bootstrap_step_cong [of np1 np2] split: sum.splits prod.splits)

subsection \<open>The split and the fitted model\<close>

lemma ceiling_quarter: "nat \<lceil>(1 / 4) * real n\<rceil> = (n + 3) div 4"
proof -
  have "\<lceil>(1 / 4) * real n\<rceil> = int ((n + 3) div 4)"
  proof (rule ceiling_unique)
    have "4 * ((n + 3) div 4) + (n + 3) mod 4 = n + 3" by simp
    moreover have "(n + 3) mod 4 < 4" by simp
    ultimately have a: "n \<le> 4 * ((n + 3) div 4)" and b: "4 * ((n + 3) div 4) \<le> n + 3"
      by linarith+
    from a have "real n \<le> real (4 * ((n + 3) div 4))" by (rule of_nat_mono)
    then show "1 / 4 * real n \<le> of_int (int ((n + 3) div 4))" by simp
    from b have "real (4 * ((n + 3) div 4)) \<le> real (n + 3)" by (rule of_nat_mono)
    then show "of_int (int ((n + 3) div 4)) - 1 < 1 / 4 * real n" by simp
  qed
  then show ?thesis by simp
qed

lemma train_test_split_Inr:
  assumes "length target = length features" and "2 \<le> length features"
    and "length (permutation sk (Some seed) (length features)) = length features"
  shows "train_test_split sk features target seed =
     Inr (map (\<lambda>i. features ! i)
            (drop ((length features + 3) div 4) (permutation sk (Some seed) (length features))),
          map (\<lambda>i. features ! i)
            (take ((length features + 3) div 4) (permutation sk (Some seed) (length features))),
          map (\<lambda>i. target ! i)
            (drop ((length features + 3) div 4) (permutation sk (Some seed) (length features))),
          map (\<lambda>i. target ! i)
            (take ((length features + 3) div 4) (permutation sk (Some seed) (length features))))"
proof -
  from assms(2) have "(length features + 3) div 4 < length features" by linarith
  then have "length features - (length features + 3) div 4 \<noteq> 0" by simp
  moreover have "take (length features - (length features + 3) div 4)
       (drop ((length features + 3) div 4) (permutation sk (Some seed) (length features)))
     = drop ((length features + 3) div 4) (permutation sk (Some seed) (length features))"
    by (simp add: assms(3))
  ultimately show ?thesis
    unfolding train_test_split_def Let_def ceiling_quarter using assms(1) by simp
qed

lemma shuffled_rows:
  assumes "mset perm = mset [0..<length df]"
  shows "mset (map (\<lambda>i. df ! i) (take k perm)) + mset (map (\<lambda>i. df ! i) (drop k perm)) = mset df"
proof -
  have "mset (map (\<lambda>i. df ! i) (take k perm)) + mset (map (\<lambda>i. df ! i) (drop k perm))
      = mset (map (\<lambda>i. df ! i) (take k perm @ drop k perm))"
    by (simp only: map_append mset_append)
  also have "\<dots> = image_mset (\<lambda>i. df ! i) (mset perm)" by simp
  also have "\<dots> = mset (map (\<lambda>i. df ! i) [0..<length df])" by (simp only: assms mset_map)
  also have "\<dots> = mset df" by (simp only: map_nth)
  finally show ?thesis .
qed

lemma zip_index_predict:
  assumes "index tv = map fst fv"
  shows "zip (index tv) (map (\<lambda>(l, x). predict m x) fv) = map (\<lambda>(l, x). (l, predict m x)) fv"
  unfolding assms by (induction fv) auto

lemma train_region_Inr:
  fixes df :: "'l frame"
  assumes perm: "mset (permutation sk (Some seed) (length df)) = mset [0..<length df]"
    and n: "2 \<le> length df"
  defines "valid_pos \<equiv> take ((length df + 3) div 4) (permutation sk (Some seed) (length df))"
  defines "train_pos \<equiv> drop ((length df + 3) div 4) (permutation sk (Some seed) (length df))"
  defines "m \<equiv> fit sk (map (\<lambda>i. fst (snd (df ! i))) train_pos) (map (\<lambda>i. snd (snd (df ! i))) train_pos)"
  defines "fv \<equiv> map (\<lambda>i. (fst (df ! i), fst (snd (df ! i)))) valid_pos"
  defines "tv \<equiv> map (\<lambda>i. (fst (df ! i), snd (snd (df ! i)))) valid_pos"
  defines "pv \<equiv> map (\<lambda>(l, x). (l, predict m x)) fv"
  shows "train_region sk df region_name seed =
     Inr \<lparr>region = region_name, model = m, features_valid = fv, target_valid = tv,
          preds_valid = pv,
          rmse = root_mean_squared_error (values_of tv) (values_of pv),
          r2 = r2_score (values_of tv) (values_of pv),
          mean_pred = mean (values_of pv)\<rparr>"
proof -
  let ?perm = "permutation sk (Some seed) (length df)"
  let ?F = "map (\<lambda>(l, x, y). (l, x)) df" and ?T = "map (\<lambda>(l, x, y). (l, y)) df"
  from perm have len: "length ?perm = length df"
    by (metis length_upt minus_nat.diff_0 size_mset)
  from perm have "set ?perm = set [0..<length df]" by (rule mset_eq_setD)
  then have rng: "\<And>i. i \<in> set ?perm \<Longrightarrow> i < length df" by simp
  have in_v: "\<And>i. i \<in> set valid_pos \<Longrightarrow> i < length df"
    unfolding valid_pos_def by (blast dest: in_set_takeD intro: rng)
  have in_t: "\<And>i. i \<in> set train_pos \<Longrightarrow> i < length df"
    unfolding train_pos_def by (blast dest: in_set_dropD intro: rng)
  have split: "train_test_split sk ?F ?T seed =
      Inr (map (\<lambda>i. ?F ! i) train_pos, map (\<lambda>i. ?F ! i) valid_pos,
           map (\<lambda>i. ?T ! i) train_pos, map (\<lambda>i. ?T ! i) valid_pos)"
    using train_test_split_Inr [of ?T ?F sk seed] n len
    by (simp add: valid_pos_def train_pos_def)
  have fv: "map (\<lambda>i. ?F ! i) valid_pos = fv"
    unfolding fv_def by (rule map_cong) (auto dest: in_v simp: case_prod_beta)
  have tv: "map (\<lambda>i. ?T ! i) valid_pos = tv"
    unfolding tv_def by (rule map_cong) (auto dest: in_v simp: case_prod_beta)
  have ft: "map snd (map (\<lambda>i. ?F ! i) train_pos) = map (\<lambda>i. fst (snd (df ! i))) train_pos"
    unfolding map_map by (rule map_cong) (auto dest: in_t simp: case_prod_beta)
  have tt: "values_of (map (\<lambda>i. ?T ! i) train_pos) = map (\<lambda>i. snd (snd (df ! i))) train_pos"
    unfolding values_of_def map_map by (rule map_cong) (auto dest: in_t simp: case_prod_beta)
  have "index tv = map fst fv"
    by (simp add: index_def tv_def fv_def comp_def)
  then have pv: "zip (index tv) (map (\<lambda>(l, x). predict m x) fv) = pv"
    unfolding pv_def by (rule zip_index_predict)
  show ?thesis
    unfolding train_region_def Let_def split
    by (simp only: sum.case prod.case fv tv ft tt m_def [symmetric] pv)
qed

subsection \<open>Evaluations on the tape generator\<close>

lemma tape_bootstrap:
  "bootstrap_profit tape_generator [(0::nat, 10), (1, - 20)] [(0, 1), (1, 2)] 2 2 1 0 1 0
     = Inr \<lparr>mean_profit = - 10, ci_low = - (77 / 2), ci_high = 37 / 2, risk = 1 / 2,
            profits = [20, - 40]\<rparr>"
  by code_simp

subsection \<open>The pipeline of main\<close>

lemma load_region_data_keys:
  "load_region_data fs p0 p1 p2 = Inr data \<Longrightarrow> map fst data = [''0'', ''1'', ''2'']"
  by (auto simp: load_region_data_def split: sum.splits)

lemma load_region_data_Inr:
  assumes "fs p0 = Some rows0" and "fs p1 = Some rows1" and "fs p2 = Some rows2"
  shows "load_region_data fs p0 p1 p2
     = Inr [(''0'', enumerate 0 rows0), (''1'', enumerate 0 rows1), (''2'', enumerate 0 rows2)]"
  using assms by (simp add: load_region_data_def read_csv_def)

lemma train_region_ok:
  fixes df :: "'l frame"
  assumes "mset (permutation sk (Some seed) (length df)) = mset [0..<length df]"
    and "2 \<le> length df"
  shows "\<exists>res. train_region sk df region_name seed = Inr res \<and> region res = region_name
     \<and> target_valid res \<noteq> [] \<and> index (preds_valid res) = index (target_valid res)"
proof -
  let ?perm = "permutation sk (Some seed) (length df)"
  from assms(1) have len: "length ?perm = length df"
    by (metis length_upt minus_nat.diff_0 size_mset)
  from assms(2) have "0 < (length df + 3) div 4" by linarith
  with len assms(2) have "take ((length df + 3) div 4) ?perm \<noteq> []" by auto
  then show ?thesis
    unfolding train_region_Inr [OF assms]
    by (simp add: index_def comp_def case_prod_beta)
qed

lemma train_regions_each:
  "train_regions sk items = Inr ress \<Longrightarrow>
     map Inr ress = map (\<lambda>(region_name, df). train_region sk df region_name RANDOM_STATE) items"
proof (induction items arbitrary: ress)
  case Nil
  then show ?case by simp
next
  case (Cons item items)
  obtain region_name df where item: "item = (region_name, df)" by (cases item)
  from Cons.prems item obtain res rest
    where "train_region sk df region_name RANDOM_STATE = Inr res"
      and "train_regions sk items = Inr rest" and "ress = res # rest"
    by (auto split: sum.splits)
  with Cons.IH [of rest] item show ?case by simp
qed

lemma summarise_each:
  "summarise np ress = Inr summary_rows \<Longrightarrow>
     map row_region summary_rows = map region ress
     \<and> map (\<lambda>r. Inr (beneficio_promedio r, ic95_low r, ic95_high r, riesgo_de_perdida r))
           summary_rows
       = map (\<lambda>res. case bootstrap_profit np (target_valid res) (preds_valid res) N_BOOTSTRAP_ITER
                N_WELLS_PER_REGION N_TOP_WELLS BUDGET REVENUE_PER_THOUSAND_BARRELS RANDOM_STATE of
                Inl e \<Rightarrow> Inl e
              | Inr stats \<Rightarrow> Inr (mean_profit stats, ci_low stats, ci_high stats, risk stats * 100))
           ress"
proof (induction ress arbitrary: summary_rows)
  case Nil
  then show ?case by simp
next
  case (Cons res ress)
  from Cons.prems obtain stats rest
    where "bootstrap_profit np (target_valid res) (preds_valid res) N_BOOTSTRAP_ITER
                N_WELLS_PER_REGION N_TOP_WELLS BUDGET REVENUE_PER_THOUSAND_BARRELS RANDOM_STATE
             = Inr stats"
      and "summarise np ress = Inr rest"
      and "summary_rows = \<lparr>row_region = region res, beneficio_promedio = mean_profit stats,
             ic95_low = ci_low stats, ic95_high = ci_high stats,
             riesgo_de_perdida = risk stats * 100\<rparr> # rest"
    by (auto split: sum.splits)
  with Cons.IH [of rest] show ?case by simp
qed

lemma summarise_ok:
  assumes "draws_in_range np"
    and "\<forall>res \<in> set ress. target_valid res \<noteq> []
           \<and> index (preds_valid res) = index (target_valid res)"
  shows "\<exists>summary_rows. summarise np ress = Inr summary_rows"
  using assms(2)
proof (induction ress)
  case Nil
  show ?case by simp
next
  case (Cons res ress)
  then have ne: "target_valid res \<noteq> []"
    and sub: "set (index (target_valid res)) \<subseteq> set (index (preds_valid res))"
    by simp_all
  have "1 \<le> N_BOOTSTRAP_ITER" and "0 \<le> N_WELLS_PER_REGION"
    by (simp_all add: N_BOOTSTRAP_ITER_def N_WELLS_PER_REGION_def)
  from bootstrap_profit_total [OF assms(1) ne sub this] obtain stats
    where "bootstrap_profit np (target_valid res) (preds_valid res) N_BOOTSTRAP_ITER
                N_WELLS_PER_REGION N_TOP_WELLS BUDGET REVENUE_PER_THOUSAND_BARRELS RANDOM_STATE
             = Inr stats"
    by blast
  moreover from Cons obtain rest where "summarise np ress = Inr rest" by auto
  ultimately show ?case by simp
qed

lemma row_region_round_row: "row_region (round_row rnd r) = row_region r"
  by (simp add: round_row_def)

lemma regions_rank_summary:
  "mset (map row_region (rank_summary rnd summary_rows)) = mset (map row_region summary_rows)"
proof -
  have "mset (map row_region (rank_summary rnd summary_rows))
      = image_mset row_region (mset (map (round_row rnd) summary_rows))"
    unfolding rank_summary_def by (simp only: mset_map mset_sort)
  also have "\<dots> = mset (map row_region summary_rows)"
    by (simp add: multiset.map_comp comp_def row_region_round_row)
  finally show ?thesis .
qed

lemma length_rank_summary: "length (rank_summary rnd summary_rows) = length summary_rows"
  by (simp add: rank_summary_def)

lemma main_runs:
  assumes f0: "fs ''Data/geo_data_0.csv'' = Some rows0"
    and f1: "fs ''Data/geo_data_1.csv'' = Some rows1"
    and f2: "fs ''Data/geo_data_2.csv'' = Some rows2"
    and n: "2 \<le> length rows0" "2 \<le> length rows1" "2 \<le> length rows2"
    and perm: "\<forall>n. mset (permutation sk (Some RANDOM_STATE) n) = mset [0..<n]"
    and np: "draws_in_range np"
  shows "\<exists>ress summary_rows.
      train_regions sk [(''0'', enumerate 0 rows0), (''1'', enumerate 0 rows1),
          (''2'', enumerate 0 rows2)] = Inr ress
    \<and> map region ress = [''0'', ''1'', ''2'']
    \<and> summarise np ress = Inr summary_rows
    \<and> main fs sk np rnd = Inr \<lparr>training_report =
            map (\<lambda>res. (region res, rmse res, r2 res, mean_pred res)) ress,
          summary_table = rank_summary rnd summary_rows\<rparr>"
proof -
  have tr: "\<exists>res. train_region sk (enumerate 0 rows) name RANDOM_STATE = Inr res
      \<and> region res = name \<and> target_valid res \<noteq> []
      \<and> index (preds_valid res) = index (target_valid res)"
    if "2 \<le> length rows" for rows :: "(features \<times> real) list" and name
    using train_region_ok [of sk RANDOM_STATE "enumerate 0 rows" name] perm that by simp
  from tr [OF n(1), of "''0''"] obtain res0
    where r0: "train_region sk (enumerate 0 rows0) ''0'' RANDOM_STATE = Inr res0"
      "region res0 = ''0''" "target_valid res0 \<noteq> []"
      "index (preds_valid res0) = index (target_valid res0)" by blast
  from tr [OF n(2), of "''1''"] obtain res1
    where r1: "train_region sk (enumerate 0 rows1) ''1'' RANDOM_STATE = Inr res1"
      "region res1 = ''1''" "target_valid res1 \<noteq> []"
      "index (preds_valid res1) = index (target_valid res1)" by blast
  from tr [OF n(3), of "''2''"] obtain res2
    where r2: "train_region sk (enumerate 0 rows2) ''2'' RANDOM_STATE = Inr res2"
      "region res2 = ''2''" "target_valid res2 \<noteq> []"
      "index (preds_valid res2) = index (target_valid res2)" by blast
  have trs: "train_regions sk [(''0'', enumerate 0 rows0), (''1'', enumerate 0 rows1),
          (''2'', enumerate 0 rows2)] = Inr [res0, res1, res2]"
    by (simp add: r0(1) r1(1) r2(1))
  have "\<forall>res \<in> set [res0, res1, res2]. target_valid res \<noteq> []
           \<and> index (preds_valid res) = index (target_valid res)"
    using r0(3,4) r1(3,4) r2(3,4) by simp
  from summarise_ok [OF np this] obtain summary_rows
    where su: "summarise np [res0, res1, res2] = Inr summary_rows" by blast
  have "main fs sk np rnd = Inr \<lparr>training_report =
            map (\<lambda>res. (region res, rmse res, r2 res, mean_pred res)) [res0, res1, res2],
          summary_table = rank_summary rnd summary_rows\<rparr>"
    unfolding main_def
      load_region_data_Inr [of fs "''Data/geo_data_0.csv''" rows0 "''Data/geo_data_1.csv''" rows1
        "''Data/geo_data_2.csv''" rows2, OF f0 f1 f2]
    by (simp only: sum.case trs su)
  with trs su r0(2) r1(2) r2(2) show ?thesis by auto
qed

lemma main_Inr_D:
  assumes "main fs sk np rnd = Inr out"
  obtains data ress summary_rows where
    "load_region_data fs ''Data/geo_data_0.csv'' ''Data/geo_data_1.csv'' ''Data/geo_data_2.csv''
       = Inr data"
    and "train_regions sk data = Inr ress"
    and "summarise np ress = Inr summary_rows"
    and "summary_table out = rank_summary rnd summary_rows"
    and "training_report out = map (\<lambda>res. (region res, rmse res, r2 res, mean_pred res)) ress"
proof (cases "load_region_data fs ''Data/geo_data_0.csv'' ''Data/geo_data_1.csv''
    ''Data/geo_data_2.csv''")
  case (Inl e)
  with assms show ?thesis by (simp add: main_def)
next
  case data: (Inr data)
  show ?thesis
  proof (cases "train_regions sk data")
    case (Inl e)
    with data assms show ?thesis by (simp add: main_def)
  next
    case ress: (Inr ress)
    show ?thesis
    proof (cases "summarise np ress")
      case (Inl e)
      with data ress assms show ?thesis by (simp add: main_def)
    next
      case (Inr summary_rows)
      with data ress assms have "out = \<lparr>training_report =
            map (\<lambda>res. (region res, rmse res, r2 res, mean_pred res)) ress,
          summary_table = rank_summary rnd summary_rows\<rparr>"
        by (simp add: main_def)
      with data ress Inr that show ?thesis by simp
    qed
  qed
qed

subsection \<open>The ranking of the summary\<close>

lemma beneficio_round_row: "beneficio_promedio (round_row rnd r) = rnd (beneficio_promedio r)"
  by (simp add: round_row_def)

lemma round_row_risk_update:
  "row_region (round_row rnd (riesgo_de_perdida_update g r)) = row_region r"
  "beneficio_promedio (round_row rnd (riesgo_de_perdida_update g r)) = rnd (beneficio_promedio r)"
  by (simp_all add: round_row_def)

lemma rank_summary_sort:
  "rank_summary rnd summary_rows
     = map (round_row rnd) (sort_key (\<lambda>r. - rnd (beneficio_promedio r)) summary_rows)"
  by (simp add: rank_summary_def sort_key_map beneficio_round_row)

lemma rank_summary_ignores_risk:
  "map row_region (rank_summary rnd (map (riesgo_de_perdida_update g) summary_rows))
     = map row_region (rank_summary rnd summary_rows)"
proof -
  have "rank_summary rnd (map (riesgo_de_perdida_update g) summary_rows)
      = map (\<lambda>r. round_row rnd (riesgo_de_perdida_update g r))
          (sort_key (\<lambda>r. - rnd (beneficio_promedio r)) summary_rows)"
    unfolding rank_summary_def map_map comp_def
    by (simp only: sort_key_map round_row_risk_update(2))
  then show ?thesis
    by (simp add: rank_summary_sort comp_def round_row_risk_update(1) row_region_round_row)
qed

lemma rank_summary_first_is_best:
  assumes "r \<in> set summary_rows"
  shows "rnd (beneficio_promedio r) \<le> beneficio_promedio (hd (rank_summary rnd summary_rows))"
proof -
  let ?s = "rank_summary rnd summary_rows"
  have srt: "sorted (map (\<lambda>r. - beneficio_promedio r) ?s)"
    unfolding rank_summary_def by (rule sorted_sort_key)
  from assms have mem: "round_row rnd r \<in> set ?s" by (simp add: rank_summary_def)
  then have ne: "?s \<noteq> []" by auto
  then obtain x xs where s: "?s = x # xs" by (cases ?s) auto
  with srt mem have "- beneficio_promedio x \<le> - beneficio_promedio (round_row rnd r)"
    by auto
  with s show ?thesis by (simp add: beneficio_round_row)
qed

lemma rank_summary_first_is_a_row:
  assumes "summary_rows \<noteq> []"
  shows "hd (rank_summary rnd summary_rows) \<in> round_row rnd ` set summary_rows"
proof -
  from assms have "rank_summary rnd summary_rows \<noteq> []"
    by (metis length_rank_summary length_0_conv)
  then have "hd (rank_summary rnd summary_rows) \<in> set (rank_summary rnd summary_rows)" by (rule hd_in_set)
  then show ?thesis by (simp add: rank_summary_def)
qed

lemma summarise_rows:
  "summarise np ress = Inr summary_rows \<Longrightarrow>
     list_all2
       (\<lambda>res r. \<exists>stats.
          bootstrap_profit np (target_valid res) (preds_valid res) N_BOOTSTRAP_ITER
            N_WELLS_PER_REGION N_TOP_WELLS BUDGET REVENUE_PER_THOUSAND_BARRELS RANDOM_STATE
            = Inr stats
          \<and> r = \<lparr>row_region = region res, beneficio_promedio = mean_profit stats,
                 ic95_low = ci_low stats, ic95_high = ci_high stats,
                 riesgo_de_perdida = risk stats * 100\<rparr>)
       ress summary_rows"
proof (induction ress arbitrary: summary_rows)
  case Nil
  then show ?case by simp
next
  case (Cons res ress)
  from Cons.prems obtain stats rest
    where "bootstrap_profit np (target_valid res) (preds_valid res) N_BOOTSTRAP_ITER
                N_WELLS_PER_REGION N_TOP_WELLS BUDGET REVENUE_PER_THOUSAND_BARRELS RANDOM_STATE
             = Inr stats"
      and "summarise np ress = Inr rest"
      and "summary_rows = \<lparr>row_region = region res, beneficio_promedio = mean_profit stats,
             ic95_low = ci_low stats, ic95_high = ci_high stats,
             riesgo_de_perdida = risk stats * 100\<rparr> # rest"
    by (auto split: sum.splits)
  with Cons.IH [of rest] show ?case by simp
qed

lemma mset_rank_summary:
  "mset (rank_summary rnd summary_rows) = mset (map (round_row rnd) summary_rows)"
  unfolding rank_summary_def by (rule mset_sort)

lemma sorted_rank_summary:
  "sorted_wrt (\<lambda>a b. beneficio_promedio b \<le> beneficio_promedio a) (rank_summary rnd summary_rows)"
proof -
  have "sorted (map (\<lambda>r. - beneficio_promedio r) (rank_summary rnd summary_rows))"
    unfolding rank_summary_def by (rule sorted_sort_key)
  then show ?thesis by (simp add: sorted_map)
qed

subsection \<open>Runs that return, runs that raise\<close>

lemma draw_samples_labels_or_empty:
  assumes "draws_in_range np" and "a \<noteq> [] \<or> m = 0"
  shows "s \<in> set (draw_samples np g a m k) \<Longrightarrow> set s \<subseteq> set a"
proof (cases "a = []")
  case False
  then show "s \<in> set (draw_samples np g a m k) \<Longrightarrow> set s \<subseteq> set a"
    by (rule draw_samples_labels [OF assms(1)])
next
  case True
  with assms(2) have m: "m = 0" by simp
  assume "s \<in> set (draw_samples np g a m k)"
  then have "length s = m" by (rule draw_samples_shape)
  with m show "set s \<subseteq> set a" by simp
qed

lemma bootstrap_loop_first_choice:
  assumes "bootstrap_loop k np tv pv m n b r g acc = Inr (ps, g')" and "0 < k"
  shows "0 \<le> m \<and> (index tv \<noteq> [] \<or> nat m = 0)"
proof -
  from assms(2) obtain j where k: "k = Suc j" by (cases k) auto
  from assms(1) [unfolded k] obtain profit g1
    where "bootstrap_step np tv pv m n b r g = Inr (profit, g1)"
    by (rule bootstrap_loop_Suc_Inr)
  then obtain ks where "choice np g (index tv) m = Inr (ks, g1)"
    by (rule bootstrap_step_Inr)
  then show ?thesis
    by (auto simp: choice_def split: if_splits)
qed

lemma tape_loop:
  "bootstrap_loop (nat 2) tape_generator [(0::nat, 10), (1, - 20)] [(0, 1), (1, 2)] 2 1 0 1
     [0, 0, 1, 1] [] = Inr ([20, - 40], [])"
  by code_simp

lemma train_region_too_small:
  fixes df :: "'l frame"
  assumes "length df < 2"
  shows "train_region sk df region_name seed = Inl ValueError"
proof -
  from assms have "length df - (length df + 3) div 4 = 0" by linarith
  then have "train_test_split sk (map (\<lambda>(l, x, y). (l, x)) df) (map (\<lambda>(l, x, y). (l, y)) df) seed
      = Inl ValueError"
    unfolding train_test_split_def Let_def ceiling_quarter by simp
  then show ?thesis by (simp add: train_region_def)
qed

lemma train_region_valid_and_train:
  fixes df :: "'l frame"
  assumes "mset (permutation sk (Some seed) (length df)) = mset [0..<length df]"
    and "2 \<le> length df"
  shows "\<exists>res. train_region sk df region_name seed = Inr res
     \<and> region res = region_name
     \<and> features_valid res
         = map (\<lambda>i. (fst (df ! i), fst (snd (df ! i)))) (valid_positions sk seed (length df))
     \<and> target_valid res
         = map (\<lambda>i. (fst (df ! i), snd (snd (df ! i)))) (valid_positions sk seed (length df))
     \<and> model res
         = fit sk (map (\<lambda>i. fst (snd (df ! i))) (train_positions sk seed (length df)))
             (map (\<lambda>i. snd (snd (df ! i))) (train_positions sk seed (length df)))
     \<and> preds_valid res = map (\<lambda>(l, x). (l, predict (model res) x)) (features_valid res)
     \<and> rmse res
         = root_mean_squared_error (values_of (target_valid res)) (values_of (preds_valid res))
     \<and> r2 res = r2_score (values_of (target_valid res)) (values_of (preds_valid res))
     \<and> mean_pred res = mean (values_of (preds_valid res))
     \<and> length (valid_positions sk seed (length df)) = nat \<lceil>(1 / 4) * real (length df)\<rceil>
     \<and> length (train_positions sk seed (length df))
         = length df - nat \<lceil>(1 / 4) * real (length df)\<rceil>
     \<and> (4 dvd length df \<longrightarrow>
           4 * length (valid_positions sk seed (length df)) = length df
           \<and> 4 * length (train_positions sk seed (length df)) = 3 * length df)
     \<and> mset (valid_positions sk seed (length df)) + mset (train_positions sk seed (length df))
         = mset [0..<length df]"
proof -
  let ?perm = "permutation sk (Some seed) (length df)"
  from assms(1) have len: "length ?perm = length df"
    by (metis length_upt minus_nat.diff_0 size_mset)
  have lv: "length (valid_positions sk seed (length df)) = (length df + 3) div 4"
    unfolding valid_positions_def using len by simp
  have lt: "length (train_positions sk seed (length df)) = length df - (length df + 3) div 4"
    unfolding train_positions_def using len by simp
  have q: "4 dvd length df \<longrightarrow> 4 * ((length df + 3) div 4) = length df
      \<and> 4 * (length df - (length df + 3) div 4) = 3 * length df"
    by (auto elim!: dvdE)
  have part: "mset (valid_positions sk seed (length df)) + mset (train_positions sk seed (length df))
      = mset [0..<length df]"
    unfolding valid_positions_def train_positions_def
    by (simp only: mset_append [symmetric] append_take_drop_id assms(1))
  note r = train_region_Inr [OF assms, of region_name,
      folded valid_positions_def train_positions_def]
  show ?thesis
    unfolding r ceiling_quarter using lv lt q part by simp
qed

lemma load_region_data_Inr_D:
  assumes "load_region_data fs p0 p1 p2 = Inr data"
  shows "\<exists>rows0 rows1 rows2. fs p0 = Some rows0 \<and> fs p1 = Some rows1 \<and> fs p2 = Some rows2
     \<and> data = [(''0'', enumerate 0 rows0), (''1'', enumerate 0 rows1), (''2'', enumerate 0 rows2)]"
  using assms
  by (auto simp: load_region_data_def read_csv_def split: sum.splits option.splits)

lemma train_region_region:
  "train_region sk df region_name seed = Inr res \<Longrightarrow> region res = region_name"
  by (auto simp: train_region_def Let_def split: sum.splits prod.splits)

lemma train_regions_regions:
  "train_regions sk data = Inr ress \<Longrightarrow> map region ress = map fst data"
proof (induction data arbitrary: ress)
  case Nil
  then show ?case by simp
next
  case (Cons item data)
  obtain region_name df where item: "item = (region_name, df)" by (cases item)
  from Cons.prems item obtain res rest
    where r: "train_region sk df region_name RANDOM_STATE = Inr res"
      and "train_regions sk data = Inr rest" and "ress = res # rest"
    by (auto split: sum.splits)
  with Cons.IH [of rest] item train_region_region [OF r] show ?case by simp
qed

section \<open>The claims\<close>

subsection \<open>calculate_profit\<close>

text \<open>
  C1. For two identically indexed series, \<^verbatim>\<open>calculate_profit\<close> should return the sum of the
  actual values of the \<open>n_top_wells\<close> wells with the highest predictions, times the revenue
  per unit, minus the budget, and add up exactly \<open>min n_top_wells n\<close> values. The code looks
  the selected wells up by label, so a well that was drawn twice is counted once for each of
  its rows every time its label is selected. In the sample below well 0 was drawn twice and
  one well is to be selected: the code adds up two values and returns 20, where the sum over
  the one top well is 10.
\<close>

theorem calculate_profit_repeated_label:
  "calculate_profit [(0::nat, 10), (0, 10), (1, 7)] [(0, 5), (0, 5), (1, 1)] 0 1 3 1 = Inr 20
   \<and> revenue_rows [(0::nat, 10), (0, 10), (1, 7)] [(0, 5), (0, 5), (1, 1)] 1
       = Inr [(0, 10), (0, 10)]
   \<and> top_wells_profit [(0::nat, 10), (0, 10), (1, 7)] [(0, 5), (0, 5), (1, 1)] 0 1 1 = 10"
  by code_simp

text \<open>
  For series whose labels are distinct the model and the description agree
  (\<open>calculate_profit_distinct\<close>, \<open>length_revenue_rows_distinct\<close>), with the order of the model
  among wells of equal prediction.
\<close>

text \<open>
  C8. The result of \<^verbatim>\<open>calculate_profit\<close> does not depend on \<open>n_wells_in_sample\<close>.
\<close>

theorem calculate_profit_ignores_n_wells_in_sample:
  "calculate_profit target predictions budget revenue n_wells_1 n_top
     = calculate_profit target predictions budget revenue n_wells_2 n_top"
  by (simp add: calculate_profit_def)

text \<open>
  C10. With \<open>n_top_wells\<close> at least the number of wells, \<^verbatim>\<open>calculate_profit\<close> should select
  every well once and return the sum of all actual values, times the revenue per unit, minus
  the budget. No error is raised, but in a sample with a repeated label the repeated well is
  counted once for each pair of its rows: below the code returns 47, where the sum of the
  sample is 27. For distinct labels the claim holds (\<open>calculate_profit_all_wells_distinct\<close>).
\<close>

theorem calculate_profit_all_wells_repeated_label:
  "calculate_profit [(0::nat, 10), (0, 10), (1, 7)] [(0, 5), (0, 5), (1, 1)] 0 1 3 3 = Inr 47
   \<and> sum_list (values_of [(0::nat, 10), (0, 10), (1, 7)]) * 1 - 0 = (27::real)"
  by code_simp

subsection \<open>bootstrap_profit\<close>

text \<open>
  C2. Whenever \<^verbatim>\<open>bootstrap_profit\<close> returns, there were \<open>n_iter\<close> samples of \<open>n_wells_in_sample\<close>
  labels, each label drawn from the whole index of \<open>target_valid\<close> (with replacement); the
  profits are those of \<^verbatim>\<open>calculate_profit\<close> on the samples, one per sample; \<open>mean_profit\<close> is the
  mean of the profits, \<open>ci_low\<close> and \<open>ci_high\<close> are their percentiles 2.5 and 97.5, and \<open>risk\<close> is
  the fraction of the profits below zero. For identically indexed non-empty series, at least
  one iteration and a sample size that is not negative, it does return.
\<close>

theorem bootstrap_profit_resamples:
  assumes "draws_in_range np"
  shows "(bootstrap_profit np tv pv n_iter n_wells n_top b r seed = Inr res \<longrightarrow>
       int (length (draw_samples np (default_rng np (Some seed)) (index tv) (nat n_wells)
              (nat n_iter))) = n_iter
     \<and> (\<forall>s \<in> set (draw_samples np (default_rng np (Some seed)) (index tv) (nat n_wells)
                      (nat n_iter)).
           int (length s) = n_wells \<and> set s \<subseteq> set (index tv))
     \<and> map Inr (profits res)
         = map (sample_profit tv pv b r n_wells n_top)
             (draw_samples np (default_rng np (Some seed)) (index tv) (nat n_wells) (nat n_iter))
     \<and> mean_profit res = sum_list (profits res) / real_of_int n_iter
     \<and> percentile (profits res) (5 / 2) = Inr (ci_low res)
     \<and> percentile (profits res) (195 / 2) = Inr (ci_high res)
     \<and> risk res = real (length (filter (\<lambda>p. p < 0) (profits res))) / real_of_int n_iter)
   \<and> (index pv = index tv \<and> tv \<noteq> [] \<and> 1 \<le> n_iter \<and> 0 \<le> n_wells \<longrightarrow>
       (\<exists>res. bootstrap_profit np tv pv n_iter n_wells n_top b r seed = Inr res))"
proof (intro conjI impI)
  assume "index pv = index tv \<and> tv \<noteq> [] \<and> 1 \<le> n_iter \<and> 0 \<le> n_wells"
  then have "tv \<noteq> []" and "set (index tv) \<subseteq> set (index pv)" and "1 \<le> n_iter" and "0 \<le> n_wells"
    by simp_all
  then show "\<exists>res. bootstrap_profit np tv pv n_iter n_wells n_top b r seed = Inr res"
    by (rule bootstrap_profit_total [OF assms])
next
  let ?samples = "draw_samples np (default_rng np (Some seed)) (index tv) (nat n_wells) (nat n_iter)"
  assume res: "bootstrap_profit np tv pv n_iter n_wells n_top b r seed = Inr res"
  from res obtain ps g' where
    loop: "bootstrap_loop (nat n_iter) np tv pv n_wells n_top b r (default_rng np (Some seed)) []
             = Inr (ps, g')"
    and lo: "percentile ps (5 / 2) = Inr (ci_low res)"
    and hi: "percentile ps (195 / 2) = Inr (ci_high res)"
    and mp: "mean_profit res = mean ps"
    and rk: "risk res = mean (map (\<lambda>p. if p < 0 then 1 else 0) ps)"
    and ps: "profits res = ps"
    by (rule bootstrap_profit_Inr_D)
  from bootstrap_loop_Inr_D [OF loop] obtain qs where "ps = [] @ qs" and "length qs = nat n_iter"
    and "map Inr qs = map (sample_profit tv pv b r n_wells n_top) ?samples"
    by blast
  then have len: "length ps = nat n_iter"
    and prof: "map Inr ps = map (sample_profit tv pv b r n_wells n_top) ?samples"
    by simp_all
  from percentile_Inr_D [OF lo] have "ps \<noteq> []" by simp
  then have "0 < length ps" by simp
  with len have pos: "0 < nat n_iter" by simp
  then have n: "int (nat n_iter) = n_iter" by simp
  then have rn: "real (nat n_iter) = real_of_int n_iter" by (metis of_int_of_nat_eq)
  from bootstrap_loop_first_choice [OF loop pos]
  have w: "0 \<le> n_wells" and ne: "index tv \<noteq> [] \<or> nat n_wells = 0" by simp_all
  show "int (length ?samples) = n_iter"
    by (simp only: length_draw_samples n)
  show "\<forall>s \<in> set ?samples. int (length s) = n_wells \<and> set s \<subseteq> set (index tv)"
  proof (intro ballI conjI)
    fix s assume s: "s \<in> set ?samples"
    then have "length s = nat n_wells" by (rule draw_samples_shape)
    with w show "int (length s) = n_wells" by simp
    from s show "set s \<subseteq> set (index tv)"
      by (rule draw_samples_labels_or_empty [OF assms ne])
  qed
  show "map Inr (profits res) = map (sample_profit tv pv b r n_wells n_top) ?samples"
    by (simp only: ps prof)
  show "mean_profit res = sum_list (profits res) / real_of_int n_iter"
    by (simp only: mp ps mean_def len rn)
  show "percentile (profits res) (5 / 2) = Inr (ci_low res)" by (simp only: ps lo)
  show "percentile (profits res) (195 / 2) = Inr (ci_high res)" by (simp only: ps hi)
  show "risk res = real (length (filter (\<lambda>p. p < 0) (profits res))) / real_of_int n_iter"
    by (simp only: rk ps risk_count len rn)
qed

theorem bootstrap_profit_resamples_witness:
  "draws_in_range tape_generator
   \<and> bootstrap_profit tape_generator [(0::nat, 10), (1, - 20)] [(0, 1), (1, 2)] 2 2 1 0 1 0
       = Inr \<lparr>mean_profit = - 10, ci_low = - (77 / 2), ci_high = 37 / 2, risk = 1 / 2,
              profits = [20, - 40]\<rparr>
   \<and> map Inr [20, - 40]
       = map (sample_profit [(0::nat, 10), (1, - 20)] [(0, 1), (1, 2)] 0 1 2 1)
           (draw_samples tape_generator (default_rng tape_generator (Some 0))
              (index [(0::nat, 10), (1, - 20)]) (nat 2) (nat 2))
   \<and> index [(0::nat, 1::real), (1, 2)] = index [(0::nat, 10), (1, - 20)]
   \<and> (\<exists>res. bootstrap_profit tape_generator [(0::nat, 10), (1, - 20)] [(0, 1), (1, 2)] 2 2 1 0 1 0
              = Inr res)"
proof -
  have i: "index [(0::nat, 1::real), (1, 2)] = index [(0::nat, 10), (1, - 20)]"
    by (simp add: index_def)
  note t = bootstrap_profit_resamples [OF draws_in_range_tape,
      of "[(0::nat, 10), (1, - 20)]" "[(0, 1), (1, 2)]" 2 2 1 0 1 0
        "\<lparr>mean_profit = - 10, ci_low = - (77 / 2), ci_high = 37 / 2, risk = 1 / 2,
              profits = [20, - 40]\<rparr>"]
  from t [THEN conjunct1, rule_format, OF tape_bootstrap]
  have "map Inr [20, - 40]
       = map (sample_profit [(0::nat, 10), (1, - 20)] [(0, 1), (1, 2)] 0 1 2 1)
           (draw_samples tape_generator (default_rng tape_generator (Some 0))
              (index [(0::nat, 10), (1, - 20)]) (nat 2) (nat 2))"
    by simp
  moreover from t [THEN conjunct2] i
  have "\<exists>res. bootstrap_profit tape_generator [(0::nat, 10), (1, - 20)] [(0, 1), (1, 2)] 2 2 1 0 1 0
              = Inr res"
    by simp
  ultimately show ?thesis
    using draws_in_range_tape tape_bootstrap i by (intro conjI)
qed

text \<open>
  C9. Whenever \<^verbatim>\<open>bootstrap_profit\<close> returns, the risk is between 0 and 1, the lower end of the
  interval is at most the upper end, and there are exactly \<open>n_iter\<close> profits.
\<close>

theorem bootstrap_profit_result_invariants:
  assumes "bootstrap_profit np tv pv n_iter n_wells n_top b r seed = Inr res"
  shows "0 \<le> risk res \<and> risk res \<le> 1 \<and> ci_low res \<le> ci_high res
     \<and> int (length (profits res)) = n_iter"
proof -
  from assms obtain ps g' where
    loop: "bootstrap_loop (nat n_iter) np tv pv n_wells n_top b r (default_rng np (Some seed)) []
             = Inr (ps, g')"
    and lo: "percentile ps (5 / 2) = Inr (ci_low res)"
    and hi: "percentile ps (195 / 2) = Inr (ci_high res)"
    and rk: "risk res = mean (map (\<lambda>p. if p < 0 then 1 else 0) ps)"
    and ps: "profits res = ps"
    by (rule bootstrap_profit_Inr_D)
  from percentile_Inr_D [OF lo] have ne: "ps \<noteq> []" by simp
  from bootstrap_loop_Inr_D [OF loop] obtain qs where "ps = [] @ qs" and "length qs = nat n_iter"
    by blast
  then have len: "length ps = nat n_iter" by simp
  with ne have "int (length ps) = n_iter" by (cases "0 \<le> n_iter") auto
  moreover have "ci_low res \<le> ci_high res"
    by (rule percentile_mono [OF lo hi]) simp
  moreover from risk_bounds [OF ne] have "0 \<le> risk res" "risk res \<le> 1"
    by (simp_all only: rk)
  ultimately show ?thesis by (simp add: ps)
qed

theorem bootstrap_profit_result_invariants_witness:
  "bootstrap_profit tape_generator [(0::nat, 10), (1, - 20)] [(0, 1), (1, 2)] 2 2 1 0 1 0
     = Inr \<lparr>mean_profit = - 10, ci_low = - (77 / 2), ci_high = 37 / 2, risk = 1 / 2,
            profits = [20, - 40]\<rparr>
   \<and> (0::real) \<le> 1 / 2 \<and> (1 / 2 :: real) \<le> 1 \<and> (- (77 / 2) :: real) \<le> 37 / 2
   \<and> int (length [20, - 40 :: real]) = 2"
  using bootstrap_profit_result_invariants [OF tape_bootstrap] tape_bootstrap by simp

text \<open>
  C6. The loop of the bootstrap is a recursion on the number of iterations still to run, so
  it ends. When it completes, it has run exactly \<open>n_iter\<close> iterations, 1000 by default: one
  profit per iteration, and the generator advanced by \<open>n_iter\<close> times \<open>n_wells_in_sample\<close> draws.
  It completes whenever every sampled label can be looked up in both series. Every function
  of the model is defined without recursion or by structural recursion, from functions
  defined before it: no stage reads the output of a later one.
\<close>

theorem bootstrap_loop_runs_n_iter:
  "(bootstrap_loop (nat n_iter) np tv pv n_wells n_top b r g [] = Inr (ps, g') \<longrightarrow>
       length ps = nat n_iter
     \<and> g' = snd (draw_indices np g (length tv) (nat n_iter * nat n_wells))
     \<and> (0 \<le> n_iter \<longrightarrow> int (length ps) = n_iter)
     \<and> (n_iter = N_BOOTSTRAP_ITER \<longrightarrow> length ps = 1000))
   \<and> (draws_in_range np \<and> tv \<noteq> [] \<and> set (index tv) \<subseteq> set (index pv) \<and> 0 \<le> n_wells \<longrightarrow>
       (\<exists>ps g'. bootstrap_loop (nat n_iter) np tv pv n_wells n_top b r g [] = Inr (ps, g')))"
proof (intro conjI impI)
  assume "draws_in_range np \<and> tv \<noteq> [] \<and> set (index tv) \<subseteq> set (index pv) \<and> 0 \<le> n_wells"
  then have "draws_in_range np" and "tv \<noteq> []" and "set (index tv) \<subseteq> set (index pv)"
    and "0 \<le> n_wells"
    by simp_all
  then show "\<exists>ps g'. bootstrap_loop (nat n_iter) np tv pv n_wells n_top b r g [] = Inr (ps, g')"
    by (rule bootstrap_loop_total)
next
  assume loop: "bootstrap_loop (nat n_iter) np tv pv n_wells n_top b r g [] = Inr (ps, g')"
  from bootstrap_loop_Inr_D [OF loop] obtain qs where "ps = [] @ qs" and "length qs = nat n_iter"
    and g': "g' = snd (draw_indices np g (length tv) (nat n_iter * nat n_wells))"
    by blast
  then show len: "length ps = nat n_iter" by simp
  show "g' = snd (draw_indices np g (length tv) (nat n_iter * nat n_wells))" by (rule g')
  show "int (length ps) = n_iter" if "0 \<le> n_iter" using that len by simp
  show "length ps = 1000" if "n_iter = N_BOOTSTRAP_ITER"
    using that len by (simp add: N_BOOTSTRAP_ITER_def)
qed

theorem bootstrap_loop_runs_n_iter_witness:
  "bootstrap_loop (nat 2) tape_generator [(0::nat, 10), (1, - 20)] [(0, 1), (1, 2)] 2 1 0 1
     [0, 0, 1, 1] [] = Inr ([20, - 40], [])
   \<and> int (length [20, - 40 :: real]) = 2
   \<and> draws_in_range tape_generator
   \<and> (\<exists>ps g'. bootstrap_loop (nat N_BOOTSTRAP_ITER) tape_generator [(0::nat, 10), (1, - 20)]
                  [(0, 1), (1, 2)] 2 1 0 1 [0, 0, 1, 1] [] = Inr (ps, g')
          \<and> length ps = 1000)"
proof -
  have sub: "set (index [(0::nat, 10::real), (1, - 20)]) \<subseteq> set (index [(0::nat, 1::real), (1, 2)])"
    by (simp add: index_def)
  note t = bootstrap_loop_runs_n_iter [of _ tape_generator "[(0::nat, 10), (1, - 20)]"
      "[(0, 1), (1, 2)]" 2 1 0 1 "[0, 0, 1, 1]"]
  from t [of 2 "[20, - 40]" "[]", THEN conjunct1, rule_format, OF tape_loop]
  have a: "int (length [20, - 40 :: real]) = 2" by simp
  from t [of N_BOOTSTRAP_ITER, THEN conjunct2] draws_in_range_tape sub
  obtain ps g' where l: "bootstrap_loop (nat N_BOOTSTRAP_ITER) tape_generator
      [(0::nat, 10), (1, - 20)] [(0, 1), (1, 2)] 2 1 0 1 [0, 0, 1, 1] [] = Inr (ps, g')"
    by auto
  from t [of N_BOOTSTRAP_ITER ps g', THEN conjunct1, rule_format, OF l]
  have "length ps = 1000" by simp
  with l a tape_loop draws_in_range_tape show ?thesis by blast
qed

text \<open>
  C7. Two runs may differ in what the libraries do without a seed, but not in what they do
  with one. \<^verbatim>\<open>bootstrap_profit\<close> and \<^verbatim>\<open>train_region\<close> always pass their seed, so they return
  the same results in both runs.
\<close>

theorem seeded_runs_agree:
  assumes "\<forall>s. default_rng np1 (Some s) = default_rng np2 (Some s)"
    and "next_index np1 = next_index np2"
    and "\<forall>s n. permutation sk1 (Some s) n = permutation sk2 (Some s) n"
    and "fit sk1 = fit sk2"
  shows "bootstrap_profit np1 tv pv n_iter n_wells n_top b r seed
           = bootstrap_profit np2 tv pv n_iter n_wells n_top b r seed
     \<and> train_region sk1 df region_name seed = train_region sk2 df region_name seed"
proof
  show "bootstrap_profit np1 tv pv n_iter n_wells n_top b r seed
           = bootstrap_profit np2 tv pv n_iter n_wells n_top b r seed"
    using assms(1) by (simp add: bootstrap_profit_def bootstrap_loop_cong [OF assms(2)])
  have h: "train_test_split sk1 (map (\<lambda>(l, x, y). (l, x)) df) (map (\<lambda>(l, x, y). (l, y)) df) seed
      = train_test_split sk2 (map (\<lambda>(l, x, y). (l, x)) df) (map (\<lambda>(l, x, y). (l, y)) df) seed"
    using assms(3) by (simp add: train_test_split_def Let_def)
  show "train_region sk1 df region_name seed = train_region sk2 df region_name seed"
    unfolding train_region_def Let_def h assms(4) by (rule refl)
qed

theorem seeded_runs_agree_witness:
  "default_rng tape_generator None \<noteq> default_rng other_tape_generator None
   \<and> permutation plain_sklearn None 2 \<noteq> permutation other_sklearn None 2
   \<and> bootstrap_profit tape_generator [(0::nat, 10), (1, - 20)] [(0, 1), (1, 2)] 2 2 1 0 1 0
       = bootstrap_profit other_tape_generator [(0::nat, 10), (1, - 20)] [(0, 1), (1, 2)] 2 2 1 0 1 0
   \<and> train_region plain_sklearn [(0::nat, (1, 2, 3), 10), (1, (4, 5, 6), 20)] ''0'' 0
       = train_region other_sklearn [(0::nat, (1, 2, 3), 10), (1, (4, 5, 6), 20)] ''0'' 0"
proof -
  have 1: "\<forall>s. default_rng tape_generator (Some s) = default_rng other_tape_generator (Some s)"
    by (simp add: tape_generator_def other_tape_generator_def)
  have 2: "next_index tape_generator = next_index other_tape_generator"
    by (simp add: other_tape_generator_def)
  have 3: "\<forall>s n. permutation plain_sklearn (Some s) n = permutation other_sklearn (Some s) n"
    by (simp add: plain_sklearn_def other_sklearn_def)
  have 4: "fit plain_sklearn = fit other_sklearn"
    by (simp add: other_sklearn_def)
  have 5: "default_rng tape_generator None \<noteq> default_rng other_tape_generator None"
    by (simp add: tape_generator_def other_tape_generator_def)
  have 6: "permutation plain_sklearn None 2 \<noteq> permutation other_sklearn None 2"
    by (simp add: plain_sklearn_def other_sklearn_def upt_rec numeral_2_eq_2)
  from seeded_runs_agree [OF 1 2 3 4] 5 6 show ?thesis by blast
qed

subsection \<open>train_region\<close>

text \<open>
  C4. For a dataframe of at least two rows, \<^verbatim>\<open>train_region\<close> returns a result. The validation
  rows are the rows at the first \<open>\<lceil>n / 4\<rceil>\<close> positions of the seeded shuffle (a quarter of the
  rows, exactly so when \<open>n\<close> is a multiple of 4) and the training rows are the others; each
  row is in exactly one part. The model is fitted on the features and the product of the
  training rows alone; the predictions are those of the model on the validation features,
  and \<open>rmse\<close>, \<open>r2\<close> and \<open>mean_pred\<close> are computed from the validation targets and these
  predictions. With fewer than two rows the training part would be empty and
  \<^verbatim>\<open>train_test_split\<close> raises.
\<close>

theorem train_region_split_fit_validate:
  fixes df :: "'l frame"
  assumes "mset (permutation sk (Some seed) (length df)) = mset [0..<length df]"
  shows "(2 \<le> length df \<longrightarrow>
       (\<exists>res. train_region sk df region_name seed = Inr res
     \<and> region res = region_name
     \<and> features_valid res
         = map (\<lambda>i. (fst (df ! i), fst (snd (df ! i)))) (valid_positions sk seed (length df))
     \<and> target_valid res
         = map (\<lambda>i. (fst (df ! i), snd (snd (df ! i)))) (valid_positions sk seed (length df))
     \<and> model res
         = fit sk (map (\<lambda>i. fst (snd (df ! i))) (train_positions sk seed (length df)))
             (map (\<lambda>i. snd (snd (df ! i))) (train_positions sk seed (length df)))
     \<and> preds_valid res = map (\<lambda>(l, x). (l, predict (model res) x)) (features_valid res)
     \<and> rmse res
         = root_mean_squared_error (values_of (target_valid res)) (values_of (preds_valid res))
     \<and> r2 res = r2_score (values_of (target_valid res)) (values_of (preds_valid res))
     \<and> mean_pred res = mean (values_of (preds_valid res))
     \<and> length (valid_positions sk seed (length df)) = nat \<lceil>(1 / 4) * real (length df)\<rceil>
     \<and> length (train_positions sk seed (length df))
         = length df - nat \<lceil>(1 / 4) * real (length df)\<rceil>
     \<and> (4 dvd length df \<longrightarrow>
           4 * length (valid_positions sk seed (length df)) = length df
           \<and> 4 * length (train_positions sk seed (length df)) = 3 * length df)
     \<and> mset (valid_positions sk seed (length df)) + mset (train_positions sk seed (length df))
         = mset [0..<length df]))
   \<and> (length df < 2 \<longrightarrow> train_region sk df region_name seed = Inl ValueError)"
  using train_region_valid_and_train [OF assms, of region_name]
    train_region_too_small [of df sk region_name seed]
  by blast

theorem train_region_split_fit_validate_witness:
  "mset (permutation plain_sklearn (Some RANDOM_STATE) (length example_frame))
     = mset [0..<length example_frame]
   \<and> 2 \<le> length example_frame
   \<and> (\<exists>res. train_region plain_sklearn example_frame ''0'' RANDOM_STATE = Inr res
          \<and> target_valid res = [(0, 10)]
          \<and> model res = \<lparr>coef = (0, 0, 0), intercept = 30\<rparr>
          \<and> preds_valid res = [(0, 30)]
          \<and> mean_pred res = 30)
   \<and> train_region plain_sklearn [(0::nat, (1, 0, 0), 10)] ''0'' RANDOM_STATE = Inl ValueError"
proof -
  have one: "train_region plain_sklearn [(0::nat, (1, 0, 0), 10)] ''0'' RANDOM_STATE
      = Inl ValueError"
    using train_region_split_fit_validate [of plain_sklearn RANDOM_STATE
        "[(0::nat, (1, 0, 0), 10)]" "''0''", THEN conjunct2]
    by (simp add: plain_sklearn_def)
  have p: "permutation plain_sklearn (Some RANDOM_STATE) (length example_frame) = [0, 1, 2, 3]"
    by (simp add: plain_sklearn_def example_frame_def upt_rec)
  have u: "[0..<length example_frame] = [0, 1, 2, 3]"
    by (simp add: example_frame_def upt_rec)
  have h1: "mset (permutation plain_sklearn (Some RANDOM_STATE) (length example_frame))
     = mset [0..<length example_frame]"
    by (simp only: p u)
  have h2: "2 \<le> length example_frame" by (simp add: example_frame_def)
  have v: "valid_positions plain_sklearn RANDOM_STATE (length example_frame) = [0]"
    unfolding valid_positions_def p by (simp add: example_frame_def)
  have t: "train_positions plain_sklearn RANDOM_STATE (length example_frame) = [1, 2, 3]"
    unfolding train_positions_def p by (simp add: example_frame_def)
  have f: "fit plain_sklearn xs ys = \<lparr>coef = (0, 0, 0), intercept = mean ys\<rparr>" for xs ys
    by (simp add: plain_sklearn_def)
  from train_region_split_fit_validate [OF h1, of "''0''", THEN conjunct1, rule_format, OF h2]
  obtain res where "train_region plain_sklearn example_frame ''0'' RANDOM_STATE = Inr res"
    and "features_valid res = map (\<lambda>i. (fst (example_frame ! i), fst (snd (example_frame ! i)))) [0]"
    and "target_valid res = map (\<lambda>i. (fst (example_frame ! i), snd (snd (example_frame ! i)))) [0]"
    and "model res = fit plain_sklearn (map (\<lambda>i. fst (snd (example_frame ! i))) [1, 2, 3])
             (map (\<lambda>i. snd (snd (example_frame ! i))) [1, 2, 3])"
    and "preds_valid res = map (\<lambda>(l, x). (l, predict (model res) x)) (features_valid res)"
    and "mean_pred res = mean (values_of (preds_valid res))"
    unfolding v t by blast
  then have "train_region plain_sklearn example_frame ''0'' RANDOM_STATE = Inr res
          \<and> target_valid res = [(0, 10)]
          \<and> model res = \<lparr>coef = (0, 0, 0), intercept = 30\<rparr>
          \<and> preds_valid res = [(0, 30)]
          \<and> mean_pred res = 30"
    by (simp add: f example_frame_def mean_def predict_def values_of_def)
  with h1 h2 one show ?thesis by blast
qed

subsection \<open>load_region_data and main\<close>

text \<open>
  C5. Whenever \<^verbatim>\<open>load_region_data\<close> returns, the dictionary has exactly the keys \<open>0\<close>, \<open>1\<close> and
  \<open>2\<close>, in this order, each with the dataset read from its file. Whenever \<^verbatim>\<open>main\<close> returns, it
  has called \<^verbatim>\<open>train_region\<close> once on each of the three datasets and \<^verbatim>\<open>bootstrap_profit\<close> once on
  each of the three results: the training report has one entry per region and the summary
  table one row per region, built from the bootstrap of that region. When the three files are
  there with at least two rows each, \<^verbatim>\<open>main\<close> does return.
\<close>

theorem main_three_regions:
  "(load_region_data fs path_region_0 path_region_1 path_region_2 = Inr data \<longrightarrow>
       map fst data = [''0'', ''1'', ''2'']
     \<and> (\<exists>rows0 rows1 rows2. fs path_region_0 = Some rows0 \<and> fs path_region_1 = Some rows1
          \<and> fs path_region_2 = Some rows2
          \<and> map snd data = [enumerate 0 rows0, enumerate 0 rows1, enumerate 0 rows2]))
   \<and> (main fs sk np rnd = Inr out \<longrightarrow>
       (\<exists>regions ress summary_rows.
          load_region_data fs ''Data/geo_data_0.csv'' ''Data/geo_data_1.csv''
            ''Data/geo_data_2.csv'' = Inr regions
        \<and> train_regions sk regions = Inr ress
        \<and> map Inr ress
            = map (\<lambda>(region_name, df). train_region sk df region_name RANDOM_STATE) regions
        \<and> summarise np ress = Inr summary_rows
        \<and> map (\<lambda>r. Inr (beneficio_promedio r, ic95_low r, ic95_high r, riesgo_de_perdida r))
              summary_rows
            = map (\<lambda>res. case bootstrap_profit np (target_valid res) (preds_valid res)
                     N_BOOTSTRAP_ITER N_WELLS_PER_REGION N_TOP_WELLS BUDGET
                     REVENUE_PER_THOUSAND_BARRELS RANDOM_STATE of
                     Inl e \<Rightarrow> Inl e
                   | Inr stats \<Rightarrow>
                       Inr (mean_profit stats, ci_low stats, ci_high stats, risk stats * 100))
                ress
        \<and> map row_region summary_rows = [''0'', ''1'', ''2'']
        \<and> map fst (training_report out) = [''0'', ''1'', ''2'']
        \<and> length (summary_table out) = 3
        \<and> mset (map row_region (summary_table out)) = mset [''0'', ''1'', ''2'']))
   \<and> (fs ''Data/geo_data_0.csv'' = Some rows0 \<and> fs ''Data/geo_data_1.csv'' = Some rows1
        \<and> fs ''Data/geo_data_2.csv'' = Some rows2
        \<and> 2 \<le> length rows0 \<and> 2 \<le> length rows1 \<and> 2 \<le> length rows2
        \<and> (\<forall>n. mset (permutation sk (Some RANDOM_STATE) n) = mset [0..<n])
        \<and> draws_in_range np \<longrightarrow>
       (\<exists>out. main fs sk np rnd = Inr out))"
proof (intro conjI impI)
  assume ld: "load_region_data fs path_region_0 path_region_1 path_region_2 = Inr data"
  then show "map fst data = [''0'', ''1'', ''2'']" by (rule load_region_data_keys)
  from load_region_data_Inr_D [OF ld]
  show "\<exists>rows0 rows1 rows2. fs path_region_0 = Some rows0 \<and> fs path_region_1 = Some rows1
          \<and> fs path_region_2 = Some rows2
          \<and> map snd data = [enumerate 0 rows0, enumerate 0 rows1, enumerate 0 rows2]"
    by auto
next
  assume "fs ''Data/geo_data_0.csv'' = Some rows0 \<and> fs ''Data/geo_data_1.csv'' = Some rows1
        \<and> fs ''Data/geo_data_2.csv'' = Some rows2
        \<and> 2 \<le> length rows0 \<and> 2 \<le> length rows1 \<and> 2 \<le> length rows2
        \<and> (\<forall>n. mset (permutation sk (Some RANDOM_STATE) n) = mset [0..<n])
        \<and> draws_in_range np"
  then have f: "fs ''Data/geo_data_0.csv'' = Some rows0" "fs ''Data/geo_data_1.csv'' = Some rows1"
      "fs ''Data/geo_data_2.csv'' = Some rows2"
    and n: "2 \<le> length rows0" "2 \<le> length rows1" "2 \<le> length rows2"
    and p: "\<forall>n. mset (permutation sk (Some RANDOM_STATE) n) = mset [0..<n]"
    and d: "draws_in_range np"
    by simp_all
  from main_runs [of fs rows0 rows1 rows2 sk np, OF f n p d]
  show "\<exists>out. main fs sk np rnd = Inr out" by blast
next
  assume mn: "main fs sk np rnd = Inr out"
  then obtain regions ress summary_rows where
    ld: "load_region_data fs ''Data/geo_data_0.csv'' ''Data/geo_data_1.csv''
       ''Data/geo_data_2.csv'' = Inr regions"
    and trs: "train_regions sk regions = Inr ress"
    and su: "summarise np ress = Inr summary_rows"
    and st: "summary_table out = rank_summary rnd summary_rows"
    and tr: "training_report out
        = map (\<lambda>res. (region res, rmse res, r2 res, mean_pred res)) ress"
    by (rule main_Inr_D)
  note keys = load_region_data_keys [OF ld]
  from train_regions_regions [OF trs] keys have reg: "map region ress = [''0'', ''1'', ''2'']"
    by simp
  note each = summarise_each [OF su]
  from each reg have rr: "map row_region summary_rows = [''0'', ''1'', ''2'']" by simp
  then have "length (map row_region summary_rows) = 3" by simp
  then have l3: "length summary_rows = 3" by simp
  show "\<exists>regions ress summary_rows.
          load_region_data fs ''Data/geo_data_0.csv'' ''Data/geo_data_1.csv''
            ''Data/geo_data_2.csv'' = Inr regions
        \<and> train_regions sk regions = Inr ress
        \<and> map Inr ress
            = map (\<lambda>(region_name, df). train_region sk df region_name RANDOM_STATE) regions
        \<and> summarise np ress = Inr summary_rows
        \<and> map (\<lambda>r. Inr (beneficio_promedio r, ic95_low r, ic95_high r, riesgo_de_perdida r))
              summary_rows
            = map (\<lambda>res. case bootstrap_profit np (target_valid res) (preds_valid res)
                     N_BOOTSTRAP_ITER N_WELLS_PER_REGION N_TOP_WELLS BUDGET
                     REVENUE_PER_THOUSAND_BARRELS RANDOM_STATE of
                     Inl e \<Rightarrow> Inl e
                   | Inr stats \<Rightarrow>
                       Inr (mean_profit stats, ci_low stats, ci_high stats, risk stats * 100))
                ress
        \<and> map row_region summary_rows = [''0'', ''1'', ''2'']
        \<and> map fst (training_report out) = [''0'', ''1'', ''2'']
        \<and> length (summary_table out) = 3
        \<and> mset (map row_region (summary_table out)) = mset [''0'', ''1'', ''2'']"
  proof (intro exI [of _ regions] exI [of _ ress] exI [of _ summary_rows] conjI)
    show "load_region_data fs ''Data/geo_data_0.csv'' ''Data/geo_data_1.csv''
            ''Data/geo_data_2.csv'' = Inr regions" by (rule ld)
    show "train_regions sk regions = Inr ress" by (rule trs)
    show "map Inr ress
            = map (\<lambda>(region_name, df). train_region sk df region_name RANDOM_STATE) regions"
      by (rule train_regions_each [OF trs])
    show "summarise np ress = Inr summary_rows" by (rule su)
    from each show "map (\<lambda>r. Inr (beneficio_promedio r, ic95_low r, ic95_high r, riesgo_de_perdida r))
              summary_rows
            = map (\<lambda>res. case bootstrap_profit np (target_valid res) (preds_valid res)
                     N_BOOTSTRAP_ITER N_WELLS_PER_REGION N_TOP_WELLS BUDGET
                     REVENUE_PER_THOUSAND_BARRELS RANDOM_STATE of
                     Inl e \<Rightarrow> Inl e
                   | Inr stats \<Rightarrow>
                       Inr (mean_profit stats, ci_low stats, ci_high stats, risk stats * 100))
                ress"
      by (rule conjunct2)
    show "map row_region summary_rows = [''0'', ''1'', ''2'']" by (rule rr)
    show "map fst (training_report out) = [''0'', ''1'', ''2'']"
      using reg by (simp add: tr comp_def)
    show "length (summary_table out) = 3"
      by (simp add: st length_rank_summary l3)
    show "mset (map row_region (summary_table out)) = mset [''0'', ''1'', ''2'']"
      by (simp only: st regions_rank_summary rr)
  qed
qed

theorem main_three_regions_witness:
  "draws_in_range tape_generator
   \<and> (\<forall>n. mset (permutation plain_sklearn (Some RANDOM_STATE) n) = mset [0..<n])
   \<and> example_files ''Data/geo_data_0.csv'' = Some [((1, 0, 0), 10), ((0, 1, 0), 20)]
   \<and> 2 \<le> length ([((1, 0, 0), 10), ((0, 1, 0), 20)] :: (features \<times> real) list)
   \<and> (\<exists>out. main example_files plain_sklearn tape_generator round2 = Inr out
          \<and> map fst (training_report out) = [''0'', ''1'', ''2'']
          \<and> length (summary_table out) = 3
          \<and> mset (map row_region (summary_table out)) = mset [''0'', ''1'', ''2''])
   \<and> (\<exists>data. load_region_data example_files ''Data/geo_data_0.csv'' ''Data/geo_data_1.csv''
                ''Data/geo_data_2.csv'' = Inr data
          \<and> map fst data = [''0'', ''1'', ''2''])"
proof -
  have f: "example_files ''Data/geo_data_0.csv'' = Some [((1, 0, 0), 10), ((0, 1, 0), 20)]"
    "example_files ''Data/geo_data_1.csv'' = Some [((1, 1, 0), 5), ((0, 1, 1), 7)]"
    "example_files ''Data/geo_data_2.csv'' = Some [((1, 0, 1), 30), ((0, 0, 1), 2)]"
    by (simp_all add: example_files_def)
  have p: "\<forall>n. mset (permutation plain_sklearn (Some RANDOM_STATE) n) = mset [0..<n]"
    by (simp add: plain_sklearn_def)
  have n: "2 \<le> length ([((1, 0, 0), 10), ((0, 1, 0), 20)] :: (features \<times> real) list)"
    "2 \<le> length ([((1, 1, 0), 5), ((0, 1, 1), 7)] :: (features \<times> real) list)"
    "2 \<le> length ([((1, 0, 1), 30), ((0, 0, 1), 2)] :: (features \<times> real) list)"
    by simp_all
  note t = main_three_regions [of example_files _ _ _ _ plain_sklearn tape_generator round2]
  from t [of _ _ _ _ _ "[((1, 0, 0), 10), ((0, 1, 0), 20)]" "[((1, 1, 0), 5), ((0, 1, 1), 7)]"
      "[((1, 0, 1), 30), ((0, 0, 1), 2)]", THEN conjunct2, THEN conjunct2]
    f n p draws_in_range_tape
  obtain out where m: "main example_files plain_sklearn tape_generator round2 = Inr out"
    by blast
  from t [of _ _ _ _ out, THEN conjunct2, THEN conjunct1, rule_format, OF m]
  have o: "map fst (training_report out) = [''0'', ''1'', ''2'']"
    "length (summary_table out) = 3"
    "mset (map row_region (summary_table out)) = mset [''0'', ''1'', ''2'']"
    by blast+
  have l: "load_region_data example_files ''Data/geo_data_0.csv'' ''Data/geo_data_1.csv''
      ''Data/geo_data_2.csv''
     = Inr [(''0'', enumerate 0 [((1, 0, 0), 10), ((0, 1, 0), 20)]),
            (''1'', enumerate 0 [((1, 1, 0), 5), ((0, 1, 1), 7)]),
            (''2'', enumerate 0 [((1, 0, 1), 30), ((0, 0, 1), 2)])]"
    by (rule load_region_data_Inr [of example_files "''Data/geo_data_0.csv''" _
          "''Data/geo_data_1.csv''" _ "''Data/geo_data_2.csv''" _, OF f])
  note k = t [THEN conjunct1, rule_format, OF l, THEN conjunct1]
  show ?thesis
  proof (intro conjI)
    show "draws_in_range tape_generator" by (rule draws_in_range_tape)
    show "\<forall>n. mset (permutation plain_sklearn (Some RANDOM_STATE) n) = mset [0..<n]" by (rule p)
    show "example_files ''Data/geo_data_0.csv'' = Some [((1, 0, 0), 10), ((0, 1, 0), 20)]"
      by (rule f(1))
    show "2 \<le> length ([((1, 0, 0), 10), ((0, 1, 0), 20)] :: (features \<times> real) list)"
      by (rule n(1))
    from m o show "\<exists>out. main example_files plain_sklearn tape_generator round2 = Inr out
          \<and> map fst (training_report out) = [''0'', ''1'', ''2'']
          \<and> length (summary_table out) = 3
          \<and> mset (map row_region (summary_table out)) = mset [''0'', ''1'', ''2'']"
      by (intro exI [of _ out] conjI)
    from l k show "\<exists>data. load_region_data example_files ''Data/geo_data_0.csv''
                ''Data/geo_data_1.csv'' ''Data/geo_data_2.csv'' = Inr data
          \<and> map fst data = [''0'', ''1'', ''2'']"
      by (intro exI conjI)
  qed
qed

text \<open>
  C3. The claim that the final ranking applies a risk constraint fails: the code sorts the
  summary by mean profit and never reads the risk column. In the table below region 0 is
  ranked first with a risk of loss of 40 percent, while the best region among those below a
  limit of 2.5 percent is region 1. The numbers of the table are whole, so that rounding
  them to two decimals changes nothing, in floating point as in exact arithmetic.
\<close>

theorem first_ranked_region_exceeds_risk_limit:
  "map row_region (rank_summary round2 example_summary) = [''0'', ''1'', ''2'']
   \<and> riesgo_de_perdida (hd (rank_summary round2 example_summary)) = 40
   \<and> map_option row_region (best_under_risk round2 (5 / 2) example_summary) = Some ''1''"
  by code_simp

text \<open>
  C3, as amended. Whenever \<^verbatim>\<open>main\<close> returns, the summary rows are those of the three regions
  0, 1 and 2: the row of a region carries the mean profit, the two ends of the interval and
  the risk (in percent) that \<^verbatim>\<open>bootstrap_profit\<close> returns for the validation data of that
  region. The final report holds exactly these rows, every number rounded, by decreasing
  rounded mean profit. So the region ranked first is one whose rounded mean bootstrap
  profit is the highest among the three regions, and the order of the regions is the same
  whatever their risks are: the risk is reported and no constraint on it is applied.
\<close>

theorem final_report_ranks_by_mean_profit:
  assumes "main fs sk np rnd = Inr out"
  shows "\<exists>regions ress summary_rows.
      load_region_data fs ''Data/geo_data_0.csv'' ''Data/geo_data_1.csv''
        ''Data/geo_data_2.csv'' = Inr regions
    \<and> train_regions sk regions = Inr ress
    \<and> map region ress = [''0'', ''1'', ''2'']
    \<and> summarise np ress = Inr summary_rows
    \<and> list_all2
         (\<lambda>res r. \<exists>stats.
            bootstrap_profit np (target_valid res) (preds_valid res) N_BOOTSTRAP_ITER
              N_WELLS_PER_REGION N_TOP_WELLS BUDGET REVENUE_PER_THOUSAND_BARRELS RANDOM_STATE
              = Inr stats
            \<and> r = \<lparr>row_region = region res, beneficio_promedio = mean_profit stats,
                   ic95_low = ci_low stats, ic95_high = ci_high stats,
                   riesgo_de_perdida = risk stats * 100\<rparr>)
         ress summary_rows
    \<and> summary_table out = rank_summary rnd summary_rows
    \<and> mset (summary_table out) = mset (map (round_row rnd) summary_rows)
    \<and> sorted_wrt (\<lambda>a b. beneficio_promedio b \<le> beneficio_promedio a) (summary_table out)
    \<and> (\<exists>res \<in> set ress. \<exists>stats.
          bootstrap_profit np (target_valid res) (preds_valid res) N_BOOTSTRAP_ITER
            N_WELLS_PER_REGION N_TOP_WELLS BUDGET REVENUE_PER_THOUSAND_BARRELS RANDOM_STATE
            = Inr stats
          \<and> hd (summary_table out)
              = \<lparr>row_region = region res, beneficio_promedio = rnd (mean_profit stats),
                 ic95_low = rnd (ci_low stats), ic95_high = rnd (ci_high stats),
                 riesgo_de_perdida = rnd (risk stats * 100)\<rparr>)
    \<and> (\<forall>res \<in> set ress. \<forall>stats.
          bootstrap_profit np (target_valid res) (preds_valid res) N_BOOTSTRAP_ITER
            N_WELLS_PER_REGION N_TOP_WELLS BUDGET REVENUE_PER_THOUSAND_BARRELS RANDOM_STATE
            = Inr stats
          \<longrightarrow> rnd (mean_profit stats) \<le> beneficio_promedio (hd (summary_table out)))
    \<and> (\<forall>g. map row_region (rank_summary rnd (map (riesgo_de_perdida_update g) summary_rows))
            = map row_region (summary_table out))"
proof -
  let ?boot = "\<lambda>res. bootstrap_profit np (target_valid res) (preds_valid res) N_BOOTSTRAP_ITER
      N_WELLS_PER_REGION N_TOP_WELLS BUDGET REVENUE_PER_THOUSAND_BARRELS RANDOM_STATE"
  let ?row = "\<lambda>res stats. \<lparr>row_region = region res, beneficio_promedio = mean_profit stats,
      ic95_low = ci_low stats, ic95_high = ci_high stats, riesgo_de_perdida = risk stats * 100\<rparr>"
  from assms obtain regions ress summary_rows where
    ld: "load_region_data fs ''Data/geo_data_0.csv'' ''Data/geo_data_1.csv''
       ''Data/geo_data_2.csv'' = Inr regions"
    and trs: "train_regions sk regions = Inr ress"
    and su: "summarise np ress = Inr summary_rows"
    and st: "summary_table out = rank_summary rnd summary_rows"
    by (rule main_Inr_D)
  from train_regions_regions [OF trs] load_region_data_keys [OF ld]
  have reg: "map region ress = [''0'', ''1'', ''2'']" by simp
  note rows = summarise_rows [OF su]
  then have len: "length ress = length summary_rows" by (rule list_all2_lengthD)
  from rows have each: "\<exists>stats. ?boot res = Inr stats \<and> r = ?row res stats"
    if "(res, r) \<in> set (zip ress summary_rows)" for res r
    using that by (auto simp: list_all2_iff)
  from reg have "length ress = 3" by (metis length_map length_Cons list.size(3) numeral_3_eq_3)
  with len have ne: "summary_rows \<noteq> []" by auto
  have first: "\<exists>res \<in> set ress. \<exists>stats. ?boot res = Inr stats
      \<and> hd (summary_table out)
          = \<lparr>row_region = region res, beneficio_promedio = rnd (mean_profit stats),
             ic95_low = rnd (ci_low stats), ic95_high = rnd (ci_high stats),
             riesgo_de_perdida = rnd (risk stats * 100)\<rparr>"
  proof -
    from rank_summary_first_is_a_row [OF ne, of rnd] obtain r
      where r: "r \<in> set summary_rows" and hd: "hd (summary_table out) = round_row rnd r"
      unfolding st by auto
    from r len obtain res where z: "(res, r) \<in> set (zip ress summary_rows)"
      by (metis in_set_impl_in_set_zip2)
    from each [OF z] obtain stats where b: "?boot res = Inr stats" and rr: "r = ?row res stats"
      by blast
    from z have "res \<in> set ress" by (rule set_zip_leftD)
    moreover have "hd (summary_table out)
          = \<lparr>row_region = region res, beneficio_promedio = rnd (mean_profit stats),
             ic95_low = rnd (ci_low stats), ic95_high = rnd (ci_high stats),
             riesgo_de_perdida = rnd (risk stats * 100)\<rparr>"
      by (simp add: hd rr round_row_def)
    ultimately show ?thesis using b by blast
  qed
  have best: "rnd (mean_profit stats) \<le> beneficio_promedio (hd (summary_table out))"
    if res: "res \<in> set ress" and b: "?boot res = Inr stats" for res stats
  proof -
    from res len obtain r where z: "(res, r) \<in> set (zip ress summary_rows)"
      by (metis in_set_impl_in_set_zip1)
    from each [OF z] b have rr: "r = ?row res stats" by auto
    from z have "r \<in> set summary_rows" by (rule set_zip_rightD)
    from rank_summary_first_is_best [OF this, of rnd] show ?thesis
      by (simp add: st rr)
  qed
  show ?thesis
  proof (intro exI [of _ regions] exI [of _ ress] exI [of _ summary_rows] conjI allI)
    show "load_region_data fs ''Data/geo_data_0.csv'' ''Data/geo_data_1.csv''
        ''Data/geo_data_2.csv'' = Inr regions" by (rule ld)
    show "train_regions sk regions = Inr ress" by (rule trs)
    show "map region ress = [''0'', ''1'', ''2'']" by (rule reg)
    show "summarise np ress = Inr summary_rows" by (rule su)
    show "list_all2 (\<lambda>res r. \<exists>stats. ?boot res = Inr stats \<and> r = ?row res stats)
        ress summary_rows" by (rule rows)
    show "summary_table out = rank_summary rnd summary_rows" by (rule st)
    show "mset (summary_table out) = mset (map (round_row rnd) summary_rows)"
      unfolding st by (rule mset_rank_summary)
    show "sorted_wrt (\<lambda>a b. beneficio_promedio b \<le> beneficio_promedio a) (summary_table out)"
      unfolding st by (rule sorted_rank_summary)
    show "\<exists>res \<in> set ress. \<exists>stats. ?boot res = Inr stats
      \<and> hd (summary_table out)
          = \<lparr>row_region = region res, beneficio_promedio = rnd (mean_profit stats),
             ic95_low = rnd (ci_low stats), ic95_high = rnd (ci_high stats),
             riesgo_de_perdida = rnd (risk stats * 100)\<rparr>" by (rule first)
    show "\<forall>res \<in> set ress. \<forall>stats. ?boot res = Inr stats
          \<longrightarrow> rnd (mean_profit stats) \<le> beneficio_promedio (hd (summary_table out))"
      using best by blast
    show "map row_region (rank_summary rnd (map (riesgo_de_perdida_update g) summary_rows))
            = map row_region (summary_table out)" for g
      unfolding st by (rule rank_summary_ignores_risk)
  qed
qed

theorem final_report_ranks_by_mean_profit_witness:
  "\<exists>out. main example_files plain_sklearn tape_generator round2 = Inr out
   \<and> (\<exists>regions ress summary_rows.
         load_region_data example_files ''Data/geo_data_0.csv'' ''Data/geo_data_1.csv''
           ''Data/geo_data_2.csv'' = Inr regions
       \<and> train_regions plain_sklearn regions = Inr ress
       \<and> map region ress = [''0'', ''1'', ''2'']
       \<and> summarise tape_generator ress = Inr summary_rows
       \<and> list_all2
            (\<lambda>res r. \<exists>stats.
               bootstrap_profit tape_generator (target_valid res) (preds_valid res) N_BOOTSTRAP_ITER
                 N_WELLS_PER_REGION N_TOP_WELLS BUDGET REVENUE_PER_THOUSAND_BARRELS RANDOM_STATE
                 = Inr stats
               \<and> r = \<lparr>row_region = region res, beneficio_promedio = mean_profit stats,
                      ic95_low = ci_low stats, ic95_high = ci_high stats,
                      riesgo_de_perdida = risk stats * 100\<rparr>)
            ress summary_rows
       \<and> summary_table out = rank_summary round2 summary_rows
       \<and> mset (summary_table out) = mset (map (round_row round2) summary_rows)
       \<and> sorted_wrt (\<lambda>a b. beneficio_promedio b \<le> beneficio_promedio a) (summary_table out)
       \<and> (\<exists>res \<in> set ress. \<exists>stats.
             bootstrap_profit tape_generator (target_valid res) (preds_valid res) N_BOOTSTRAP_ITER
               N_WELLS_PER_REGION N_TOP_WELLS BUDGET REVENUE_PER_THOUSAND_BARRELS RANDOM_STATE
               = Inr stats
             \<and> hd (summary_table out)
                 = \<lparr>row_region = region res, beneficio_promedio = round2 (mean_profit stats),
                    ic95_low = round2 (ci_low stats), ic95_high = round2 (ci_high stats),
                    riesgo_de_perdida = round2 (risk stats * 100)\<rparr>)
       \<and> (\<forall>res \<in> set ress. \<forall>stats.
             bootstrap_profit tape_generator (target_valid res) (preds_valid res) N_BOOTSTRAP_ITER
               N_WELLS_PER_REGION N_TOP_WELLS BUDGET REVENUE_PER_THOUSAND_BARRELS RANDOM_STATE
               = Inr stats
             \<longrightarrow> round2 (mean_profit stats) \<le> beneficio_promedio (hd (summary_table out)))
       \<and> (\<forall>g. map row_region (rank_summary round2 (map (riesgo_de_perdida_update g) summary_rows))
               = map row_region (summary_table out)))"
proof -
  have f: "example_files ''Data/geo_data_0.csv'' = Some [((1, 0, 0), 10), ((0, 1, 0), 20)]"
    "example_files ''Data/geo_data_1.csv'' = Some [((1, 1, 0), 5), ((0, 1, 1), 7)]"
    "example_files ''Data/geo_data_2.csv'' = Some [((1, 0, 1), 30), ((0, 0, 1), 2)]"
    by (simp_all add: example_files_def)
  have p: "\<forall>n. mset (permutation plain_sklearn (Some RANDOM_STATE) n) = mset [0..<n]"
    by (simp add: plain_sklearn_def)
  have n: "2 \<le> length ([((1, 0, 0), 10), ((0, 1, 0), 20)] :: (features \<times> real) list)"
    "2 \<le> length ([((1, 1, 0), 5), ((0, 1, 1), 7)] :: (features \<times> real) list)"
    "2 \<le> length ([((1, 0, 1), 30), ((0, 0, 1), 2)] :: (features \<times> real) list)"
    by simp_all
  from main_runs [of example_files _ _ _ plain_sklearn tape_generator round2,
      OF f n p draws_in_range_tape]
  obtain out where m: "main example_files plain_sklearn tape_generator round2 = Inr out"
    apply -
    apply (elim exE conjE)
    apply (rule that)
    apply assumption
    done
  from final_report_ranks_by_mean_profit [OF m] m show ?thesis
    by (intro exI [of _ out] conjI)
qed

end
